theory Spec2Isabelle
  imports Complex_Main
begin

section \<open>Entity container (src/js/engine/Entity.js)\<close>

text \<open>
  Entities and components are JavaScript objects that refer to each other, so they live in
  an explicit store and are named by references. A component object carries the field
  \<open>entity\<close> (\<open>null\<close> or the owning entity) and may or may not have a \<open>cleanup\<close> method;
  the store records every invocation of a \<open>cleanup\<close> method in call order.
\<close>

type_synonym eref = nat
type_synonym cref = nat

record component =
  entity :: "eref option"
  has_cleanup :: bool

record entity_obj =
  components :: "string \<rightharpoonup> cref"
  active :: bool
  tags :: "string set"

record store =
  entities :: "eref \<Rightarrow> entity_obj"
  comps :: "cref \<Rightarrow> component"
  cleanup_calls :: "cref list"

text \<open>\<open>this.components.set(name, c)\<close> on the entity \<open>this\<close>.\<close>

definition components_set :: "eref \<Rightarrow> string \<Rightarrow> cref \<Rightarrow> store \<Rightarrow> store" where
  "components_set this componentName c s =
     s\<lparr>entities := (entities s)
        (this := (entities s this)
           \<lparr>components := (components (entities s this))(componentName \<mapsto> c)\<rparr>)\<rparr>"

text \<open>\<open>this.components.delete(name)\<close> on the entity \<open>this\<close>.\<close>

definition components_delete :: "eref \<Rightarrow> string \<Rightarrow> store \<Rightarrow> store" where
  "components_delete this componentName s =
     s\<lparr>entities := (entities s)
        (this := (entities s this)
           \<lparr>components := (components (entities s this))(componentName := None)\<rparr>)\<rparr>"

text \<open>
  \<open>Entity.addComponent\<close> (lines 19-28): the map entry is written first; the back-reference
  is written only when the component has none (\<open>if (!component.entity)\<close>). No \<open>cleanup\<close>
  method is called on this path.
\<close>

definition addComponent :: "eref \<Rightarrow> string \<Rightarrow> cref \<Rightarrow> store \<Rightarrow> store" where
  "addComponent this componentName c s =
     (let s1 = components_set this componentName c s
      in if entity (comps s1 c) = None
         then s1\<lparr>comps := (comps s1)(c := (comps s1 c)\<lparr>entity := Some this\<rparr>)\<rparr>
         else s1)"

text \<open>
  \<open>Entity.removeComponent\<close> (lines 35-48): when the kind is present, the component's
  \<open>cleanup\<close> method is called if it has one, then the entry is deleted.
\<close>

definition removeComponent :: "eref \<Rightarrow> string \<Rightarrow> store \<Rightarrow> store" where
  "removeComponent this componentName s =
     (case components (entities s this) componentName of
        None \<Rightarrow> s
      | Some c \<Rightarrow>
          components_delete this componentName
            (if has_cleanup (comps s c)
             then s\<lparr>cleanup_calls := cleanup_calls s @ [c]\<rparr>
             else s))"

definition getComponent :: "eref \<Rightarrow> string \<Rightarrow> store \<Rightarrow> cref option" where
  "getComponent this componentName s = components (entities s this) componentName"

definition hasComponent :: "eref \<Rightarrow> string \<Rightarrow> store \<Rightarrow> bool" where
  "hasComponent this componentName s = (components (entities s this) componentName \<noteq> None)"

text \<open>
  A concrete store: entity 0 owns component 1 under the kind \<open>Physics\<close>; component 2 is
  already attached to entity 7; both components have a \<open>cleanup\<close> method.
\<close>

definition store0 :: store where
  "store0 =
     \<lparr>entities = (\<lambda>_. \<lparr>components = Map.empty, active = True, tags = {}\<rparr>)
        (0 := \<lparr>components = [''Physics'' \<mapsto> 1], active = True, tags = {}\<rparr>),
      comps = (\<lambda>_. \<lparr>entity = None, has_cleanup = True\<rparr>)
        (1 := \<lparr>entity = Some 0, has_cleanup = True\<rparr>,
         2 := \<lparr>entity = Some 7, has_cleanup = True\<rparr>),
      cleanup_calls = []\<rparr>"

section \<open>Numbers\<close>

text \<open>
  A JavaScript number is an IEEE 754 double. A finite double is modelled as the real it
  denotes; the two zeros are identified. \<open>rnd\<close> rounds an exact result to the nearest
  double, ties to even, with gradual underflow below \<open>2\<^sup>-\<^sup>1\<^sup>0\<^sup>2\<^sup>2\<close>. The type \<open>num\<close> adds
  the two infinities and \<open>NaN\<close>: an operation whose rounded result reaches \<open>2\<^sup>1\<^sup>0\<^sup>2\<^sup>4\<close> in
  magnitude gives an infinity. \<open>setDirection\<close>, the grid conversions and the game loop
  are written with these operations. \<open>Physics.update\<close>, \<open>applyForce\<close>, \<open>Transform.update\<close>
  and the bookkeeping of \<open>CarPhysics.update\<close> are written in exact arithmetic on finite
  values. \<open>{x, y}\<close> objects are pairs.
\<close>

definition p2 :: "int \<Rightarrow> real" where
  "p2 e = 2 powr of_int e"

text \<open>The nearest integer, ties to even.\<close>

definition rhe :: "real \<Rightarrow> int" where
  "rhe q = (let f = \<lfloor>q\<rfloor>; r = q - of_int f
            in if r < 1 / 2 then f
               else if 1 / 2 < r then f + 1
               else if even f then f else f + 1)"

text \<open>The exponent of the last bit of a 53-bit mantissa, never below that of a subnormal.\<close>

definition expo :: "real \<Rightarrow> int" where
  "expo x = max (\<lfloor>log 2 \<bar>x\<bar>\<rfloor> - 52) (- 1074)"

definition rnd :: "real \<Rightarrow> real" where
  "rnd x = (if x = 0 then 0 else p2 (expo x) * of_int (rhe (x / p2 (expo x))))"

datatype num = Fin real | PInf | NInf | NaN

text \<open>The double that an operation with exact result \<open>x\<close> returns.\<close>

definition round_num :: "real \<Rightarrow> num" where
  "round_num x =
     (if 2 ^ 1024 \<le> \<bar>rnd x\<bar> then (if 0 < x then PInf else NInf) else Fin (rnd x))"

fun fneg :: "num \<Rightarrow> num" where
  "fneg (Fin a) = Fin (- a)"
| "fneg PInf = NInf"
| "fneg NInf = PInf"
| "fneg NaN = NaN"

fun fadd :: "num \<Rightarrow> num \<Rightarrow> num" where
  "fadd (Fin a) (Fin b) = round_num (a + b)"
| "fadd (Fin a) PInf = PInf"
| "fadd (Fin a) NInf = NInf"
| "fadd (Fin a) NaN = NaN"
| "fadd PInf (Fin b) = PInf"
| "fadd PInf PInf = PInf"
| "fadd PInf NInf = NaN"
| "fadd PInf NaN = NaN"
| "fadd NInf (Fin b) = NInf"
| "fadd NInf PInf = NaN"
| "fadd NInf NInf = NInf"
| "fadd NInf NaN = NaN"
| "fadd NaN _ = NaN"

definition fsub :: "num \<Rightarrow> num \<Rightarrow> num" where
  "fsub a b = fadd a (fneg b)"

text \<open>Division; a zero divisor is taken as \<open>+0\<close> (no caller here divides by a zero).\<close>

fun fdiv :: "num \<Rightarrow> num \<Rightarrow> num" where
  "fdiv (Fin a) (Fin b) =
     (if b = 0 then (if a = 0 then NaN else if 0 < a then PInf else NInf)
      else round_num (a / b))"
| "fdiv (Fin a) PInf = Fin 0"
| "fdiv (Fin a) NInf = Fin 0"
| "fdiv (Fin a) NaN = NaN"
| "fdiv PInf (Fin b) = (if 0 \<le> b then PInf else NInf)"
| "fdiv NInf (Fin b) = (if 0 \<le> b then NInf else PInf)"
| "fdiv PInf PInf = NaN"
| "fdiv PInf NInf = NaN"
| "fdiv PInf NaN = NaN"
| "fdiv NInf PInf = NaN"
| "fdiv NInf NInf = NaN"
| "fdiv NInf NaN = NaN"
| "fdiv NaN _ = NaN"

text \<open>
  The remainder operator \<open>a % b\<close> on finite operands: the quotient is truncated towards
  zero. The remainder of two doubles is a double, so nothing is rounded.
\<close>

definition js_rem :: "real \<Rightarrow> real \<Rightarrow> real" where
  "js_rem a b = a - b * of_int (if 0 \<le> a / b then \<lfloor>a / b\<rfloor> else \<lceil>a / b\<rceil>)"

fun frem :: "num \<Rightarrow> num \<Rightarrow> num" where
  "frem (Fin a) (Fin b) = (if b = 0 then NaN else Fin (js_rem a b))"
| "frem (Fin a) PInf = Fin a"
| "frem (Fin a) NInf = Fin a"
| "frem _ _ = NaN"

text \<open>\<open>Math.sqrt\<close>, correctly rounded.\<close>

fun fsqrt :: "num \<Rightarrow> num" where
  "fsqrt (Fin a) = (if a < 0 then NaN else Fin (rnd (sqrt a)))"
| "fsqrt PInf = PInf"
| "fsqrt NInf = NaN"
| "fsqrt NaN = NaN"

text \<open>The comparisons \<open>a >= b\<close> and \<open>a > b\<close>: false whenever an operand is \<open>NaN\<close>.\<close>

fun fge :: "num \<Rightarrow> num \<Rightarrow> bool" where
  "fge (Fin a) (Fin b) = (b \<le> a)"
| "fge (Fin a) PInf = False"
| "fge (Fin a) NInf = True"
| "fge (Fin a) NaN = False"
| "fge PInf (Fin b) = True"
| "fge PInf PInf = True"
| "fge PInf NInf = True"
| "fge PInf NaN = False"
| "fge NInf (Fin b) = False"
| "fge NInf PInf = False"
| "fge NInf NInf = True"
| "fge NInf NaN = False"
| "fge NaN _ = False"

fun fgt :: "num \<Rightarrow> num \<Rightarrow> bool" where
  "fgt (Fin a) (Fin b) = (b < a)"
| "fgt (Fin a) PInf = False"
| "fgt (Fin a) NInf = True"
| "fgt (Fin a) NaN = False"
| "fgt PInf (Fin b) = True"
| "fgt PInf PInf = False"
| "fgt PInf NInf = True"
| "fgt PInf NaN = False"
| "fgt NInf _ = False"
| "fgt NaN _ = False"

section \<open>Game loop (class Game, src/unnamed/part_002)\<close>

text \<open>
  The calls the loop makes to \<open>this.update(dt)\<close>, \<open>this.render()\<close> and
  \<open>requestAnimationFrame\<close> are recorded, in order, in \<open>events\<close>.
\<close>

datatype event = Update num | Render | RequestFrame

record game =
  isRunning :: bool
  lastFrameTime :: num
  targetFPS :: num
  frameInterval :: num
  events :: "event list"

definition new_Game :: game where
  "new_Game = \<lparr>isRunning = False, lastFrameTime = Fin 0, targetFPS = Fin 60,
                frameInterval = fdiv (Fin 1000) (Fin 60), events = []\<rparr>"

definition Game_update :: "num \<Rightarrow> game \<Rightarrow> game" where
  "Game_update deltaTime g = g\<lparr>events := events g @ [Update deltaTime]\<rparr>"

definition Game_render :: "game \<Rightarrow> game" where
  "Game_render g = g\<lparr>events := events g @ [Render]\<rparr>"

definition requestAnimationFrame :: "game \<Rightarrow> game" where
  "requestAnimationFrame g = g\<lparr>events := events g @ [RequestFrame]\<rparr>"

text \<open>\<open>Game.start\<close> (lines 45-57); \<open>now\<close> is the value of \<open>performance.now()\<close>.\<close>

definition start :: "real \<Rightarrow> game \<Rightarrow> game" where
  "start now g =
     (if isRunning g then g
      else requestAnimationFrame (g\<lparr>isRunning := True, lastFrameTime := Fin now\<rparr>))"

definition stop :: "game \<Rightarrow> game" where
  "stop g = g\<lparr>isRunning := False\<rparr>"

text \<open>\<open>Game.gameLoop\<close> (lines 70-88); the timestamp \<open>currentTime\<close> is a finite double.\<close>

definition gameLoop :: "real \<Rightarrow> game \<Rightarrow> game" where
  "gameLoop currentTime g =
     (if \<not> isRunning g then g
      else
        let deltaTime = fsub (Fin currentTime) (lastFrameTime g);
            g1 = (if fge deltaTime (frameInterval g)
                  then
                    let dt = fdiv deltaTime (Fin 1000);
                        g2 = Game_render (Game_update dt g)
                    in g2\<lparr>lastFrameTime :=
                            fsub (Fin currentTime) (frem deltaTime (frameInterval g))\<rparr>
                  else g)
        in requestAnimationFrame g1)"

text \<open>A game started at time 0 whose first callback arrives at 20 ms.\<close>

definition game_after_20 :: game where
  "game_after_20 = gameLoop 20 (start 0 new_Game)"

section \<open>Track grid (src/js/config/GameConfig.js)\<close>

definition TILE_WIDTH :: real where "TILE_WIDTH = 40"
definition TILE_HEIGHT :: real where "TILE_HEIGHT = 40"
definition COLS :: int where "COLS = 20"
definition ROWS :: int where "ROWS = 15"

definition ROAD :: nat where "ROAD = 0"
definition WALL :: nat where "WALL = 1"

definition COLLISION_BOUNCE :: real where "COLLISION_BOUNCE = - (1 / 10)"
definition MAX_SPEED :: real where "MAX_SPEED = 200"
definition GROUND_SPEED_DECAY :: real where "GROUND_SPEED_DECAY = 95 / 100"

definition TRACK_GRID :: "nat list" where
  "TRACK_GRID =
     [
      1, 1, 1, 1, 1, 1, 1, 1, 1, 1, 1, 1, 1, 1, 1, 1, 1, 1, 1, 1,
      1, 0, 3, 0, 0, 0, 0, 0, 0, 0, 0, 0, 0, 0, 1, 4, 0, 0, 0, 1,
      1, 0, 3, 0, 0, 0, 0, 0, 0, 0, 0, 0, 0, 0, 1, 4, 2, 2, 0, 1,
      1, 4, 1, 1, 1, 1, 1, 1, 1, 1, 1, 0, 0, 0, 1, 1, 0, 0, 0, 1,
      1, 1, 1, 0, 0, 1, 4, 4, 0, 1, 0, 0, 0, 0, 0, 1, 0, 0, 0, 1,
      1, 0, 0, 0, 0, 0, 0, 0, 0, 5, 0, 0, 0, 0, 1, 1, 0, 0, 0, 1,
      1, 0, 0, 0, 0, 0, 0, 0, 0, 0, 0, 0, 0, 0, 1, 1, 0, 0, 0, 1,
      1, 0, 0, 5, 0, 0, 0, 0, 0, 0, 0, 0, 0, 0, 1, 1, 0, 0, 0, 1,
      1, 0, 0, 1, 1, 1, 1, 1, 1, 1, 1, 1, 1, 1, 1, 1, 0, 0, 0, 1,
      1, 0, 0, 0, 0, 1, 0, 0, 0, 0, 0, 0, 0, 0, 1, 1, 0, 0, 0, 1,
      1, 0, 0, 0, 0, 1, 0, 0, 0, 0, 0, 0, 0, 0, 0, 1, 0, 0, 0, 1,
      1, 0, 0, 0, 0, 5, 0, 0, 0, 5, 0, 0, 0, 0, 0, 5, 0, 0, 0, 1,
      1, 0, 0, 0, 0, 0, 0, 0, 0, 1, 0, 0, 0, 0, 0, 0, 0, 0, 0, 1,
      1, 0, 0, 0, 0, 0, 0, 0, 0, 1, 1, 0, 0, 0, 0, 0, 0, 0, 0, 1,
      1, 1, 1, 1, 1, 1, 1, 1, 1, 1, 1, 1, 1, 1, 1, 1, 1, 1, 1, 1
     ]"

text \<open>\<open>getTrackTileAt\<close> (lines 159-166): a cell outside the grid is a wall.\<close>

definition getTrackTileAt :: "int \<Rightarrow> int \<Rightarrow> nat" where
  "getTrackTileAt col row =
     (if col < 0 \<or> col \<ge> COLS \<or> row < 0 \<or> row \<ge> ROWS then WALL
      else TRACK_GRID ! nat (row * COLS + col))"

definition isObstacle :: "int \<Rightarrow> int \<Rightarrow> bool" where
  "isObstacle col row = (getTrackTileAt col row \<noteq> ROAD)"

text \<open>
  \<open>worldToGrid\<close> (lines 185-190) returns \<open>{col, row}\<close>, here the pair \<open>(col, row)\<close>. The
  arguments are finite doubles; a quotient by 40 cannot overflow.
\<close>

definition worldToGrid :: "real \<Rightarrow> real \<Rightarrow> int \<times> int" where
  "worldToGrid wx wy = (\<lfloor>rnd (wx / TILE_WIDTH)\<rfloor>, \<lfloor>rnd (wy / TILE_HEIGHT)\<rfloor>)"

text \<open>
  \<open>gridToWorld\<close> (lines 198-203) returns the centre \<open>{x, y}\<close> of the tile; \<open>col\<close> and \<open>row\<close>
  are integer-valued doubles.
\<close>

definition gridToWorld :: "int \<Rightarrow> int \<Rightarrow> num \<times> num" where
  "gridToWorld col row =
     (fadd (round_num (of_int col * TILE_WIDTH)) (round_num (TILE_WIDTH / 2)),
      fadd (round_num (of_int row * TILE_HEIGHT)) (round_num (TILE_HEIGHT / 2)))"

text \<open>
  \<open>worldToGrid\<close> applied to the point that \<open>gridToWorld\<close> returns; \<open>None\<close> when a
  coordinate of that point is not finite.
\<close>

definition gridRoundTrip :: "int \<Rightarrow> int \<Rightarrow> (int \<times> int) option" where
  "gridRoundTrip col row =
     (case gridToWorld col row of
        (Fin wx, Fin wy) \<Rightarrow> Some (worldToGrid wx wy)
      | _ \<Rightarrow> None)"

section \<open>Transform and Physics components (src/unnamed/part_000)\<close>

record Transform =
  position :: "real \<times> real"
  rotation :: real
  scale :: "real \<times> real"
  velocity :: "real \<times> real"

definition new_Transform :: "real \<Rightarrow> real \<Rightarrow> real \<Rightarrow> Transform" where
  "new_Transform px py r = \<lparr>position = (px, py), rotation = r, scale = (1, 1), velocity = (0, 0)\<rparr>"

definition setPosition :: "real \<Rightarrow> real \<Rightarrow> Transform \<Rightarrow> Transform" where
  "setPosition px py t = t\<lparr>position := (px, py)\<rparr>"

definition Transform_update :: "real \<Rightarrow> Transform \<Rightarrow> Transform" where
  "Transform_update deltaTime t =
     t\<lparr>position := (fst (position t) + fst (velocity t) * deltaTime,
                     snd (position t) + snd (velocity t) * deltaTime)\<rparr>"

record Physics =
  speed :: real
  maxSpeed :: real
  acceleration :: real
  friction :: real
  direction :: "real \<times> real"
  mass :: real
  bounce :: real
  isStatic :: bool

definition new_Physics :: Physics where
  "new_Physics = \<lparr>speed = 0, maxSpeed = 100, acceleration = 0, friction = 9 / 10,
                   direction = (1, 0), mass = 1, bounce = 1 / 2, isStatic = False\<rparr>"

text \<open>\<open>Physics.applyForce\<close> (lines 128-136).\<close>

definition applyForce :: "real \<Rightarrow> real \<Rightarrow> 'a Physics_scheme \<Rightarrow> 'a Physics_scheme" where
  "applyForce forceX forceY p =
     (if \<not> isStatic p then
        let magnitude = sqrt (forceX * forceX + forceY * forceY)
        in if magnitude > 0
           then p\<lparr>acceleration := acceleration p + magnitude / mass p\<rparr>
           else p
      else p)"

text \<open>
  \<open>Physics.setDirection\<close> (lines 143-149), for finite doubles \<open>dx\<close> and \<open>dy\<close>. The
  magnitude may be infinite; the two quotients are stored when they are finite, and the
  result is \<open>None\<close> otherwise (lemma \<open>setDirection_total\<close>: this does not happen).
\<close>

definition magnitude_of :: "real \<Rightarrow> real \<Rightarrow> num" where
  "magnitude_of dx dy = fsqrt (fadd (round_num (dx * dx)) (round_num (dy * dy)))"

definition setDirection :: "real \<Rightarrow> real \<Rightarrow> 'a Physics_scheme \<Rightarrow> 'a Physics_scheme option" where
  "setDirection dx dy p =
     (let magnitude = magnitude_of dx dy
      in if fgt magnitude (Fin 0)
         then (case (fdiv (Fin dx) magnitude, fdiv (Fin dy) magnitude) of
                 (Fin a, Fin b) \<Rightarrow> Some (p\<lparr>direction := (a, b)\<rparr>)
               | _ \<Rightarrow> None)
         else Some p)"

text \<open>
  \<open>Physics.update\<close> (lines 155-176). The component is paired with the Transform it can
  reach: \<open>Some t\<close> when \<open>this.entity\<close> is set and that entity has a Transform component
  \<open>t\<close>, \<open>None\<close> otherwise. The velocity is written into that Transform.
\<close>

definition Physics_update ::
  "real \<Rightarrow> 'a Physics_scheme \<times> Transform option \<Rightarrow> 'a Physics_scheme \<times> Transform option" where
  "Physics_update deltaTime pt =
     (case pt of (p, tr) \<Rightarrow>
        if isStatic p then (p, tr)
        else
          let p1 = p\<lparr>speed := speed p + acceleration p * deltaTime\<rparr>;
              p2 = p1\<lparr>speed := speed p1 * friction p1\<rparr>;
              p3 = p2\<lparr>speed := min (speed p2) (maxSpeed p2)\<rparr>;
              tr' = (case tr of
                       None \<Rightarrow> None
                     | Some t \<Rightarrow>
                         Some (t\<lparr>velocity := (fst (direction p3) * speed p3,
                                                snd (direction p3) * speed p3)\<rparr>))
          in (p3\<lparr>acceleration := 0\<rparr>, tr'))"

text \<open>Any interleaving of \<open>applyForce\<close> and \<open>update\<close> calls on one component.\<close>

datatype physics_call = ApplyForce real real | UpdateCall real

fun physics_calls ::
  "physics_call list \<Rightarrow> 'a Physics_scheme \<times> Transform option \<Rightarrow> 'a Physics_scheme \<times> Transform option" where
  "physics_calls [] pt = pt"
| "physics_calls (ApplyForce fx fy # cs) pt = physics_calls cs (applyForce fx fy (fst pt), snd pt)"
| "physics_calls (UpdateCall dt # cs) pt = physics_calls cs (Physics_update dt pt)"

section \<open>CarPhysics (src/js/entities/Car.js)\<close>

text \<open>
  \<open>startPosition\<close> starts as \<open>null\<close> and \<open>previousPosition\<close> as \<open>undefined\<close>: both are
  \<open>None\<close> until the first update writes them.
\<close>

record CarPhysics = Physics +
  startupTime :: real
  startupGracePeriod :: real
  hasMovedFromStart :: bool
  startPosition :: "(real \<times> real) option"
  previousPosition :: "(real \<times> real) option"

definition new_CarPhysics :: CarPhysics where
  "new_CarPhysics = \<lparr>speed = 0, maxSpeed = MAX_SPEED, acceleration = 0,
                      friction = GROUND_SPEED_DECAY, direction = (1, 0), mass = 1,
                      bounce = 1 / 2, isStatic = False,
                      startupTime = 0, startupGracePeriod = 2000, hasMovedFromStart = False,
                      startPosition = None, previousPosition = None\<rparr>"

text \<open>\<open>CarPhysics.checkTrackCollision\<close> (lines 156-174).\<close>

definition checkTrackCollision :: "CarPhysics \<times> Transform option \<Rightarrow> CarPhysics \<times> Transform option" where
  "checkTrackCollision pt =
     (case pt of (p, tr) \<Rightarrow>
        (case tr of
           None \<Rightarrow> (p, tr)
         | Some t \<Rightarrow>
             let gridPos = worldToGrid (fst (position t)) (snd (position t))
             in if isObstacle (fst gridPos) (snd gridPos)
                then
                  let t' = (case previousPosition p of
                              Some pp \<Rightarrow> setPosition (fst pp) (snd pp) t
                            | None \<Rightarrow> t)
                  in (p\<lparr>speed := speed p * COLLISION_BOUNCE\<rparr>, Some t')
                else (p, tr)))"

text \<open>
  The local \<open>distanceFromStart\<close> of \<open>CarPhysics.update\<close> (lines 118-129): the distance of
  the Transform position from the start position, which is the position itself when no
  start position has been recorded yet.
\<close>

definition distanceFromStart :: "CarPhysics \<Rightarrow> Transform \<Rightarrow> real" where
  "distanceFromStart p t =
     (let sp = (case startPosition p of None \<Rightarrow> position t | Some s \<Rightarrow> s)
      in sqrt ((fst (position t) - fst sp)\<^sup>2 + (snd (position t) - snd sp)\<^sup>2))"

text \<open>
  The first part of \<open>CarPhysics.update\<close> (lines 113-142): the start position, the
  has-moved latch and the previous position are recorded from the Transform, then the
  startup clock advances by \<open>deltaTime * 1000\<close>.
\<close>

definition recordPositions :: "real \<Rightarrow> CarPhysics \<times> Transform option \<Rightarrow> CarPhysics \<times> Transform option" where
  "recordPositions deltaTime pt =
     (case pt of (p, tr) \<Rightarrow>
        let p1 = (case tr of
                    None \<Rightarrow> p
                  | Some t \<Rightarrow>
                      let sp = (case startPosition p of None \<Rightarrow> position t | Some s \<Rightarrow> s);
                          moved = (if distanceFromStart p t > 20 then True
                                   else hasMovedFromStart p)
                      in p\<lparr>startPosition := Some sp, hasMovedFromStart := moved,
                           previousPosition := Some (position t)\<rparr>)
        in (p1\<lparr>startupTime := startupTime p1 + deltaTime * 1000\<rparr>, tr))"

text \<open>
  \<open>CarPhysics.update\<close> (lines 112-151): the first part above, \<open>super.update\<close>, then the
  collision check behind its gate.
\<close>

definition CarPhysics_update :: "real \<Rightarrow> CarPhysics \<times> Transform option \<Rightarrow> CarPhysics \<times> Transform option" where
  "CarPhysics_update deltaTime pt =
     (let pt1 = Physics_update deltaTime (recordPositions deltaTime pt)
      in if startupTime (fst pt1) > startupGracePeriod (fst pt1) \<and> hasMovedFromStart (fst pt1)
         then checkTrackCollision pt1
         else pt1)"

text \<open>
  \<open>MovementSystem.update\<close> (Car.js lines 566-580) for one active entity that has a
  Transform and a CarPhysics component: \<open>physics.update\<close>, then \<open>transform.update\<close>.
\<close>

definition MovementSystem_update :: "real \<Rightarrow> CarPhysics \<times> Transform \<Rightarrow> CarPhysics \<times> Transform" where
  "MovementSystem_update deltaTime pt =
     (case CarPhysics_update deltaTime (fst pt, Some (snd pt)) of
        (p', Some t') \<Rightarrow> (p', Transform_update deltaTime t')
      | (p', None) \<Rightarrow> (p', snd pt))"

text \<open>
  Concrete cars. \<open>car_fast\<close> is past the grace period with the latch set and drives to
  the left at full speed from the point (70, 60), which lies in the road cell (1, 1);
  \<open>after_tick1\<close> is the state after one \<open>MovementSystem.update\<close> of a quarter second.
  \<open>car_1990\<close> has a startup clock of 1990 ms and \<open>car_unlatched\<close> an unset latch 190
  units from its start position; \<open>car_early\<close> is well inside the grace period and
  \<open>car_at_start\<close> has never moved. They stand at the point (10, 10), which lies in the
  wall cell (0, 0).
\<close>

definition car_fast :: CarPhysics where
  "car_fast = new_CarPhysics\<lparr>speed := 200, direction := (- 1, 0), startupTime := 3000,
                              hasMovedFromStart := True\<rparr>"

definition at_70_60 :: Transform where
  "at_70_60 = new_Transform 70 60 0"

definition after_tick1 :: "CarPhysics \<times> Transform" where
  "after_tick1 = MovementSystem_update (1 / 4) (car_fast, at_70_60)"

definition car_1990 :: CarPhysics where
  "car_1990 = new_CarPhysics\<lparr>speed := 50, startupTime := 1990, hasMovedFromStart := True\<rparr>"

definition car_unlatched :: CarPhysics where
  "car_unlatched = new_CarPhysics\<lparr>speed := 50, startupTime := 3000,
                                   startPosition := Some (200, 10)\<rparr>"

definition car_at_start :: CarPhysics where
  "car_at_start = new_CarPhysics\<lparr>speed := 50, startupTime := 3000\<rparr>"

definition car_early :: CarPhysics where
  "car_early = new_CarPhysics\<lparr>speed := 50, startupTime := 500, hasMovedFromStart := True\<rparr>"

definition in_wall :: Transform where
  "in_wall = new_Transform 10 10 0"

section \<open>Theorems: rounding to the nearest double\<close>

lemma p2_pos: "0 < p2 e"
  by (simp add: p2_def)

lemma p2_add: "p2 (a + b) = p2 a * p2 b"
  by (simp add: p2_def powr_add)

lemma p2_0: "p2 0 = 1"
  by (simp add: p2_def)

lemma p2_nat: "p2 (int n) = 2 ^ n"
  by (simp add: p2_def powr_realpow)

lemma p2_le: "p2 a \<le> p2 b \<longleftrightarrow> a \<le> b"
  by (simp add: p2_def)

lemma p2_less: "p2 a < p2 b \<longleftrightarrow> a < b"
  by (simp add: p2_def)

lemma p2_diff: "p2 (a - b) = p2 a / p2 b"
  by (simp add: p2_def powr_diff)

lemma p2_int: "0 \<le> d \<Longrightarrow> p2 d = of_int (2 ^ nat d)"
  using p2_nat [of "nat d"] by simp

lemma rhe_of_int: "rhe (of_int n) = n"
  by (simp add: rhe_def)

lemma rhe_floor: "\<lfloor>q\<rfloor> \<le> rhe q" "rhe q \<le> \<lfloor>q\<rfloor> + 1"
  by (simp_all add: rhe_def Let_def)

lemma rhe_ge:
  assumes "of_int n \<le> q"
  shows "n \<le> rhe q"
proof -
  from assms have "n \<le> \<lfloor>q\<rfloor>" by (simp add: le_floor_iff)
  with rhe_floor(1) [of q] show ?thesis by simp
qed

lemma rhe_le:
  assumes "q \<le> of_int n"
  shows "rhe q \<le> n"
proof (cases "q = of_int n")
  case True
  then show ?thesis by (simp add: rhe_of_int)
next
  case False
  with assms have "q < of_int n" by simp
  then have "\<lfloor>q\<rfloor> < n" by (simp add: floor_less_iff)
  with rhe_floor(2) [of q] show ?thesis by simp
qed

lemma rhe_error: "\<bar>of_int (rhe q) - q\<bar> \<le> 1 / 2"
proof -
  have "of_int \<lfloor>q\<rfloor> \<le> q" "q < of_int \<lfloor>q\<rfloor> + 1"
    by linarith+
  then show ?thesis
    by (auto simp add: rhe_def Let_def abs_le_iff)
qed

lemma rhe_mono:
  assumes "q \<le> q'"
  shows "rhe q \<le> rhe q'"
proof (cases "\<lfloor>q\<rfloor> = \<lfloor>q'\<rfloor>")
  case True
  with assms show ?thesis
    by (auto simp add: rhe_def Let_def)
next
  case False
  with assms have "\<lfloor>q\<rfloor> < \<lfloor>q'\<rfloor>"
    using floor_mono [OF assms] by simp
  with rhe_floor(2) [of q] rhe_floor(1) [of q'] show ?thesis
    by simp
qed

lemma rhe_minus: "rhe (- q) = - rhe q"
proof (cases "q = of_int \<lfloor>q\<rfloor>")
  case True
  then obtain n where "q = of_int n" ..
  then show ?thesis
    using rhe_of_int [of "- n"] by (simp add: rhe_of_int)
next
  case False
  then have f: "\<lfloor>- q\<rfloor> = - \<lfloor>q\<rfloor> - 1"
    by (intro floor_unique) (simp, linarith, simp, linarith)
  have "of_int \<lfloor>q\<rfloor> \<le> q" "q < of_int \<lfloor>q\<rfloor> + 1"
    by linarith+
  with False f show ?thesis
    by (auto simp add: rhe_def Let_def)
qed


lemma rhe_small:
  assumes "\<bar>q\<bar> < 1 / 2"
  shows "rhe q = 0"
proof (cases "0 \<le> q")
  case True
  with assms have "\<lfloor>q\<rfloor> = 0" by (intro floor_unique) simp_all
  with True assms show ?thesis by (simp add: rhe_def Let_def)
next
  case False
  with assms have "\<lfloor>q\<rfloor> = - 1" by (intro floor_unique) simp_all
  with False assms show ?thesis by (simp add: rhe_def Let_def)
qed

lemma floor_log_bounds:
  assumes "x \<noteq> 0"
  shows "p2 \<lfloor>log 2 \<bar>x\<bar>\<rfloor> \<le> \<bar>x\<bar>" and "\<bar>x\<bar> < p2 (\<lfloor>log 2 \<bar>x\<bar>\<rfloor> + 1)"
proof -
  from assms have "0 < \<bar>x\<bar>" by simp
  from floor_log_eq_powr_iff [OF this, of 2 "\<lfloor>log 2 \<bar>x\<bar>\<rfloor>"]
  show "p2 \<lfloor>log 2 \<bar>x\<bar>\<rfloor> \<le> \<bar>x\<bar>" and "\<bar>x\<bar> < p2 (\<lfloor>log 2 \<bar>x\<bar>\<rfloor> + 1)"
    by (simp_all add: p2_def)
qed

lemma floor_log_ge:
  assumes "p2 k \<le> \<bar>x\<bar>"
  shows "k \<le> \<lfloor>log 2 \<bar>x\<bar>\<rfloor>"
proof -
  from assms p2_pos [of k] have "x \<noteq> 0" by auto
  from floor_log_bounds(2) [OF this] assms have "p2 k < p2 (\<lfloor>log 2 \<bar>x\<bar>\<rfloor> + 1)"
    by simp
  then show ?thesis by (simp add: p2_less)
qed

lemma floor_log_less:
  assumes "x \<noteq> 0" and "\<bar>x\<bar> < p2 k"
  shows "\<lfloor>log 2 \<bar>x\<bar>\<rfloor> < k"
proof -
  from floor_log_bounds(1) [OF assms(1)] assms(2) have "p2 \<lfloor>log 2 \<bar>x\<bar>\<rfloor> < p2 k"
    by simp
  then show ?thesis by (simp add: p2_less)
qed

lemma floor_log_le:
  assumes "x \<noteq> 0" and "\<bar>x\<bar> \<le> p2 k"
  shows "\<lfloor>log 2 \<bar>x\<bar>\<rfloor> \<le> k"
proof -
  from floor_log_bounds(1) [OF assms(1)] assms(2) have "p2 \<lfloor>log 2 \<bar>x\<bar>\<rfloor> \<le> p2 k"
    by simp
  then show ?thesis by (simp add: p2_le)
qed

lemma expo_ge: "- 1074 \<le> expo x"
  by (simp add: expo_def)

lemma expo_minus: "expo (- x) = expo x"
  by (simp add: expo_def)

lemma rnd_0: "rnd 0 = 0"
  by (simp add: rnd_def)

lemma rnd_minus: "rnd (- x) = - rnd x"
  by (simp add: rnd_def expo_minus rhe_minus)

lemma rnd_split:
  assumes "x \<noteq> 0" and "expo x \<le> k"
  shows "x / p2 (expo x) = (x / p2 k) * of_int (2 ^ nat (k - expo x))"
proof -
  have "p2 k = p2 (expo x) * p2 (k - expo x)"
    using p2_add [of "expo x" "k - expo x"] by simp
  moreover have "p2 (k - expo x) = of_int (2 ^ nat (k - expo x))"
    using assms(2) by (simp add: p2_int)
  ultimately show ?thesis
    using p2_pos [of "expo x"] p2_pos [of k] by (simp add: field_simps)
qed

text \<open>A number with a 53-bit mantissa and an exponent in range is not changed.\<close>

lemma rnd_exact:
  assumes "\<bar>m\<bar> < 2 ^ 53" and "- 1074 \<le> j"
  shows "rnd (of_int m * p2 j) = of_int m * p2 j"
proof (cases "m = 0")
  case True
  then show ?thesis by (simp add: rnd_0)
next
  case False
  let ?x = "of_int m * p2 j"
  from False p2_pos [of j] have nz: "?x \<noteq> 0" by simp
  have "\<bar>?x\<bar> = of_int \<bar>m\<bar> * p2 j"
    using p2_pos [of j] by (simp add: abs_mult)
  also have "\<dots> < 2 ^ 53 * p2 j"
  proof -
    from assms(1) have "(of_int \<bar>m\<bar> :: real) < of_int (2 ^ 53)"
      by (simp only: of_int_less_iff)
    then show ?thesis using p2_pos [of j] by simp
  qed
  also have "\<dots> = p2 (53 + j)"
    using p2_add [of 53 j] p2_nat [of 53] by simp
  finally have "\<lfloor>log 2 \<bar>?x\<bar>\<rfloor> < 53 + j"
    using nz by (intro floor_log_less)
  with assms(2) have e: "expo ?x \<le> j"
    by (simp add: expo_def)
  have "?x / p2 (expo ?x) = (?x / p2 j) * of_int (2 ^ nat (j - expo ?x))"
    using nz e by (rule rnd_split)
  also have "\<dots> = of_int (m * 2 ^ nat (j - expo ?x))"
    using p2_pos [of j] by simp
  finally have q: "?x / p2 (expo ?x) = of_int (m * 2 ^ nat (j - expo ?x))" .
  have "rnd ?x = p2 (expo ?x) * of_int (rhe (?x / p2 (expo ?x)))"
    using nz by (simp add: rnd_def)
  also have "\<dots> = p2 (expo ?x) * (?x / p2 (expo ?x))"
    by (simp only: q rhe_of_int)
  also have "\<dots> = ?x"
    using p2_pos [of "expo ?x"] by simp
  finally show ?thesis .
qed

text \<open>Rounding does not cross a power of two.\<close>

lemma rnd_abs_le:
  assumes "\<bar>x\<bar> \<le> p2 k" and "- 1074 \<le> k"
  shows "\<bar>rnd x\<bar> \<le> p2 k"
proof (cases "x = 0")
  case True
  then show ?thesis using p2_pos [of k] by (simp add: rnd_0)
next
  case False
  from floor_log_le [OF False assms(1)] assms(2) have e: "expo x \<le> k"
    by (simp add: expo_def)
  let ?N = "2 ^ nat (k - expo x) :: int"
  have q: "x / p2 (expo x) = (x / p2 k) * of_int ?N"
    using False e by (rule rnd_split)
  have "\<bar>x / p2 k\<bar> \<le> 1"
    using assms(1) p2_pos [of k] by (simp add: field_simps)
  moreover have Npos: "(0::real) \<le> of_int ?N"
    by simp
  ultimately have "\<bar>x / p2 k\<bar> * of_int ?N \<le> 1 * of_int ?N"
    by (rule mult_right_mono)
  then have "\<bar>x / p2 (expo x)\<bar> \<le> of_int ?N"
    unfolding q by (simp only: abs_mult abs_of_nonneg [OF Npos] mult_1)
  then have b: "x / p2 (expo x) \<le> of_int ?N" "of_int (- ?N) \<le> x / p2 (expo x)"
    by (simp_all only: abs_le_iff of_int_minus) linarith+
  have "rhe (x / p2 (expo x)) \<le> ?N"
    using b(1) by (rule rhe_le)
  moreover have "- ?N \<le> rhe (x / p2 (expo x))"
    using b(2) by (rule rhe_ge)
  ultimately have "\<bar>of_int (rhe (x / p2 (expo x)))\<bar> \<le> (of_int ?N :: real)"
    by (simp only: abs_le_iff of_int_le_iff flip: of_int_minus of_int_abs) simp
  then have "\<bar>rnd x\<bar> \<le> p2 (expo x) * of_int ?N"
    using False p2_pos [of "expo x"] by (simp add: rnd_def abs_mult)
  also have "\<dots> = p2 (expo x) * p2 (k - expo x)"
    using e by (simp add: p2_int)
  also have "\<dots> = p2 k"
    using p2_add [of "expo x" "k - expo x"] by simp
  finally show ?thesis .
qed

lemma rnd_nonneg:
  assumes "0 \<le> x"
  shows "0 \<le> rnd x"
proof (cases "x = 0")
  case True
  then show ?thesis by (simp add: rnd_0)
next
  case False
  have "of_int 0 \<le> x / p2 (expo x)"
    using assms p2_pos [of "expo x"] by simp
  then have "0 \<le> rhe (x / p2 (expo x))"
    by (rule rhe_ge)
  then show ?thesis
    using False p2_pos [of "expo x"] by (simp add: rnd_def)
qed

lemma rnd_ge_pow:
  assumes "p2 k \<le> x" and "- 1074 \<le> k"
  shows "p2 k \<le> rnd x"
proof -
  from assms(1) p2_pos [of k] have pos: "0 < x" by linarith
  then have nz: "x \<noteq> 0" and ax: "\<bar>x\<bar> = x" by simp_all
  let ?L = "\<lfloor>log 2 \<bar>x\<bar>\<rfloor>"
  have kL: "k \<le> ?L"
    using assms(1) ax by (intro floor_log_ge) simp
  have r: "rnd x = p2 (expo x) * of_int (rhe (x / p2 (expo x)))"
    using nz by (simp add: rnd_def)
  show ?thesis
  proof (cases "expo x \<le> k")
    case True
    let ?N = "2 ^ nat (k - expo x) :: int"
    have q: "x / p2 (expo x) = (x / p2 k) * of_int ?N"
      using nz True by (rule rnd_split)
    have "1 \<le> x / p2 k"
      using assms(1) p2_pos [of k] by (simp add: field_simps)
    moreover have "(0::real) \<le> of_int ?N"
      by simp
    ultimately have "1 * of_int ?N \<le> (x / p2 k) * of_int ?N"
      by (rule mult_right_mono)
    then have "of_int ?N \<le> x / p2 (expo x)"
      unfolding q by (simp only: mult_1)
    then have "?N \<le> rhe (x / p2 (expo x))"
      by (rule rhe_ge)
    then have "(of_int ?N :: real) \<le> of_int (rhe (x / p2 (expo x)))"
      by (simp only: of_int_le_iff)
    then have "p2 (expo x) * of_int ?N \<le> rnd x"
      unfolding r using p2_pos [of "expo x"] by (simp only: mult_le_cancel_left_pos)
    moreover have "p2 (expo x) * of_int ?N = p2 k"
      using True p2_add [of "expo x" "k - expo x"] by (simp add: p2_int)
    ultimately show ?thesis by simp
  next
    case False
    with assms(2) have e: "expo x = ?L - 52"
      by (simp add: expo_def max_def split: if_splits)
    have "p2 ?L \<le> x"
      using floor_log_bounds(1) [OF nz] ax by simp
    moreover have "p2 ?L = p2 (expo x) * of_int (2 ^ 52)"
      using p2_add [of "expo x" 52] p2_nat [of 52] by (simp add: e)
    ultimately have "of_int (2 ^ 52) \<le> x / p2 (expo x)"
      using p2_pos [of "expo x"] by (simp add: field_simps)
    then have "2 ^ 52 \<le> rhe (x / p2 (expo x))"
      by (rule rhe_ge)
    then have "(of_int (2 ^ 52) :: real) \<le> of_int (rhe (x / p2 (expo x)))"
      by (simp only: of_int_le_iff)
    then have "p2 (expo x) * of_int (2 ^ 52) \<le> rnd x"
      unfolding r using p2_pos [of "expo x"] by (simp only: mult_le_cancel_left_pos)
    with \<open>p2 ?L = p2 (expo x) * of_int (2 ^ 52)\<close> have "p2 ?L \<le> rnd x"
      by simp
    moreover have "p2 k \<le> p2 ?L"
      using kL by (simp add: p2_le)
    ultimately show ?thesis by simp
  qed
qed


lemma rnd_nonpos: "x \<le> 0 \<Longrightarrow> rnd x \<le> 0"
  using rnd_nonneg [of "- x"] by (simp add: rnd_minus)

lemma expo_mono_pos:
  assumes "0 < x" and "x \<le> y"
  shows "expo x \<le> expo y"
proof -
  have "\<lfloor>log 2 \<bar>x\<bar>\<rfloor> \<le> \<lfloor>log 2 \<bar>y\<bar>\<rfloor>"
    using assms by (intro floor_mono) simp
  then show ?thesis by (simp add: expo_def)
qed

lemma rnd_mono_pos:
  assumes "0 < x" and "x \<le> y"
  shows "rnd x \<le> rnd y"
proof (cases "expo x = expo y")
  case True
  have "x / p2 (expo y) \<le> y / p2 (expo y)"
    using assms(2) p2_pos [of "expo y"] by (simp add: divide_right_mono)
  then have "rhe (x / p2 (expo y)) \<le> rhe (y / p2 (expo y))"
    by (rule rhe_mono)
  then have "(of_int (rhe (x / p2 (expo y))) :: real) \<le> of_int (rhe (y / p2 (expo y)))"
    by (simp only: of_int_le_iff)
  then have "p2 (expo y) * of_int (rhe (x / p2 (expo y)))
        \<le> p2 (expo y) * of_int (rhe (y / p2 (expo y)))"
    using p2_pos [of "expo y"] by (simp only: mult_le_cancel_left_pos)
  with assms True show ?thesis by (simp add: rnd_def)
next
  case False
  define Lx where "Lx = \<lfloor>log 2 \<bar>x\<bar>\<rfloor>"
  define Ly where "Ly = \<lfloor>log 2 \<bar>y\<bar>\<rfloor>"
  have ex: "expo x = max (Lx - 52) (- 1074)" and ey: "expo y = max (Ly - 52) (- 1074)"
    by (simp_all only: expo_def Lx_def Ly_def)
  from assms have y: "0 < y" by simp
  from False expo_mono_pos [OF assms] have lt: "expo x < expo y" by simp
  from lt ex ey have Ly: "- 1074 \<le> Ly" and less: "Lx < Ly"
    by linarith+
  from less have "p2 (Lx + 1) \<le> p2 Ly"
    by (simp add: p2_le)
  moreover have "\<bar>x\<bar> < p2 (Lx + 1)"
    unfolding Lx_def using assms(1) by (intro floor_log_bounds) simp
  ultimately have "\<bar>x\<bar> \<le> p2 Ly" by simp
  then have "\<bar>rnd x\<bar> \<le> p2 Ly"
    using Ly by (rule rnd_abs_le)
  moreover have "p2 Ly \<le> rnd y"
  proof (rule rnd_ge_pow)
    show "p2 Ly \<le> y"
      unfolding Ly_def using floor_log_bounds(1) [of y] y by simp
  qed (rule Ly)
  ultimately show ?thesis by simp
qed

text \<open>Rounding is monotone.\<close>

lemma rnd_mono:
  assumes "x \<le> y"
  shows "rnd x \<le> rnd y"
proof -
  consider "0 < x" | "x \<le> 0" "0 \<le> y" | "y < 0" by linarith
  then show ?thesis
  proof cases
    case 1
    then show ?thesis using assms by (rule rnd_mono_pos)
  next
    case 2
    then show ?thesis
      using rnd_nonpos [of x] rnd_nonneg [of y] by simp
  next
    case 3
    then have "0 < - y" "- y \<le> - x" using assms by simp_all
    then have "rnd (- y) \<le> rnd (- x)" by (rule rnd_mono_pos)
    then show ?thesis by (simp add: rnd_minus)
  qed
qed

text \<open>Underflow: less than half of the least positive double rounds to zero.\<close>

lemma rnd_small:
  assumes "\<bar>x\<bar> < p2 (- 1075)"
  shows "rnd x = 0"
proof (cases "x = 0")
  case True
  then show ?thesis by (simp add: rnd_0)
next
  case False
  define L where "L = \<lfloor>log 2 \<bar>x\<bar>\<rfloor>"
  from floor_log_less [OF False assms] have "L < - 1075"
    by (simp only: L_def)
  moreover have "expo x = max (L - 52) (- 1074)"
    by (simp only: expo_def L_def)
  ultimately have e: "expo x = - 1074"
    by linarith
  have "p2 (- 1074) = p2 (- 1075) * 2"
    using p2_add [of "- 1075" 1] p2_nat [of 1] by simp
  with assms have "\<bar>x\<bar> < p2 (- 1074) / 2" by simp
  then have "\<bar>x / p2 (- 1074)\<bar> < 1 / 2"
    using p2_pos [of "- 1074"] by (simp add: field_simps)
  then have "rhe (x / p2 (- 1074)) = 0" by (rule rhe_small)
  with False e show ?thesis by (simp add: rnd_def)
qed

text \<open>The rounding error is at most half a unit in the last place.\<close>

lemma rnd_error_ulp: "\<bar>rnd x - x\<bar> \<le> p2 (expo x) / 2"
proof (cases "x = 0")
  case True
  then show ?thesis using p2_pos [of "expo x"] by (simp add: rnd_0)
next
  case False
  let ?e = "expo x"
  have "rnd x - x = p2 ?e * (of_int (rhe (x / p2 ?e)) - x / p2 ?e)"
    using False p2_pos [of ?e] by (simp add: rnd_def field_simps)
  then have "\<bar>rnd x - x\<bar> = p2 ?e * \<bar>of_int (rhe (x / p2 ?e)) - x / p2 ?e\<bar>"
    using p2_pos [of ?e] by (simp add: abs_mult)
  also have "\<dots> \<le> p2 ?e * (1 / 2)"
    using rhe_error [of "x / p2 ?e"] p2_pos [of ?e] by (simp only: mult_le_cancel_left_pos)
  finally show ?thesis by simp
qed

lemma rnd_error:
  "\<bar>rnd x - x\<bar> \<le> \<bar>x\<bar> / 2 ^ 53 + p2 (- 1075)"
proof (cases "x = 0")
  case True
  then show ?thesis using p2_pos [of "- 1075"] by (simp add: rnd_0)
next
  case False
  let ?L = "\<lfloor>log 2 \<bar>x\<bar>\<rfloor>"
  have h: "p2 (- 1074) / 2 = p2 (- 1075)"
    using p2_add [of "- 1075" 1] p2_nat [of 1] by simp
  show ?thesis
  proof (cases "expo x = - 1074")
    case True
    with rnd_error_ulp [of x] h have "\<bar>rnd x - x\<bar> \<le> p2 (- 1075)" by simp
    then show ?thesis
      by (simp add: add_increasing)
  next
    case False
    then have e: "expo x = ?L - 52"
      by (simp add: expo_def max_def split: if_splits)
    have "p2 ?L = p2 (expo x) * 2 ^ 52"
      using p2_add [of "expo x" 52] p2_nat [of 52] by (simp add: e)
    moreover have "p2 ?L \<le> \<bar>x\<bar>"
      using \<open>x \<noteq> 0\<close> by (rule floor_log_bounds)
    ultimately have "p2 (expo x) / 2 \<le> \<bar>x\<bar> / 2 ^ 53"
      by simp
    with rnd_error_ulp [of x] have "\<bar>rnd x - x\<bar> \<le> \<bar>x\<bar> / 2 ^ 53" by simp
    then show ?thesis
      using p2_pos [of "- 1075"] by simp
  qed
qed

text \<open>Evaluation in a known binade.\<close>

lemma rnd_eval:
  assumes "p2 n \<le> \<bar>x\<bar>" and "\<bar>x\<bar> < p2 (n + 1)" and "- 1022 \<le> n"
  shows "rnd x = p2 (n - 52) * of_int (rhe (x / p2 (n - 52)))"
proof -
  from assms(1) p2_pos [of n] have nz: "x \<noteq> 0" by auto
  have "n \<le> \<lfloor>log 2 \<bar>x\<bar>\<rfloor>" using assms(1) by (rule floor_log_ge)
  moreover have "\<lfloor>log 2 \<bar>x\<bar>\<rfloor> < n + 1" using nz assms(2) by (rule floor_log_less)
  ultimately have "expo x = n - 52"
    using assms(3) by (simp add: expo_def)
  with nz show ?thesis by (simp add: rnd_def)
qed


text \<open>A rounded value is a double, so rounding it again changes nothing.\<close>

lemma rhe_abs_le:
  assumes "\<bar>q\<bar> \<le> of_int N"
  shows "\<bar>rhe q\<bar> \<le> N"
proof -
  from assms have "q \<le> of_int N" "of_int (- N) \<le> q"
    by (simp_all only: abs_le_iff of_int_minus) linarith+
  then have "rhe q \<le> N" "- N \<le> rhe q"
    by (simp_all only: rhe_le rhe_ge)
  then show ?thesis by simp
qed

lemma rnd_idem: "rnd (rnd x) = rnd x"
proof (cases "x = 0")
  case True
  then show ?thesis by (simp add: rnd_0)
next
  case False
  define L where "L = \<lfloor>log 2 \<bar>x\<bar>\<rfloor>"
  define e where "e = expo x"
  define m where "m = rhe (x / p2 e)"
  have e: "e = max (L - 52) (- 1074)"
    by (simp only: e_def expo_def L_def)
  have r: "rnd x = of_int m * p2 e"
    using False by (simp add: rnd_def m_def e_def)
  have "\<bar>x\<bar> < p2 (L + 1)"
    unfolding L_def using False by (rule floor_log_bounds)
  moreover have "p2 (L + 1) \<le> p2 (e + 53)"
    using e by (simp add: p2_le)
  moreover have "p2 (e + 53) = p2 e * of_int (2 ^ 53)"
    using p2_add [of e 53] p2_nat [of 53] by simp
  ultimately have "\<bar>x\<bar> \<le> p2 e * of_int (2 ^ 53)" by simp
  then have "\<bar>x / p2 e\<bar> \<le> of_int (2 ^ 53)"
    using p2_pos [of e] by (simp add: field_simps)
  then have m: "\<bar>m\<bar> \<le> 2 ^ 53"
    unfolding m_def by (rule rhe_abs_le)
  have ej: "- 1074 \<le> e" using e by simp
  show ?thesis
  proof (cases "\<bar>m\<bar> < 2 ^ 53")
    case True
    then show ?thesis unfolding r using ej by (rule rnd_exact)
  next
    case False
    with m have "m = 2 ^ 53 \<or> m = - (2 ^ 53)" by linarith
    moreover have "p2 (e + 1) = p2 e * 2"
      using p2_add [of e 1] p2_nat [of 1] by simp
    ultimately have "rnd x = of_int (2 ^ 52) * p2 (e + 1) \<or> rnd x = of_int (- (2 ^ 52)) * p2 (e + 1)"
      unfolding r by auto
    moreover have "rnd (of_int (2 ^ 52) * p2 (e + 1)) = of_int (2 ^ 52) * p2 (e + 1)"
      using ej by (intro rnd_exact) simp_all
    moreover have "rnd (of_int (- (2 ^ 52)) * p2 (e + 1)) = of_int (- (2 ^ 52)) * p2 (e + 1)"
      using ej by (intro rnd_exact) simp_all
    ultimately show ?thesis by metis
  qed
qed

lemma rnd_int:
  assumes "\<bar>m\<bar> < 2 ^ 53"
  shows "rnd (of_int m) = of_int m"
  using rnd_exact [OF assms, of 0] by (simp add: p2_0)

lemma round_num_Fin: "\<bar>rnd x\<bar> < 2 ^ 1024 \<Longrightarrow> round_num x = Fin (rnd x)"
  by (simp add: round_num_def)

lemma round_num_exact:
  assumes "\<bar>m\<bar> < 2 ^ 53" and "- 1074 \<le> j" and "j \<le> 970"
  shows "round_num (of_int m * p2 j) = Fin (of_int m * p2 j)"
proof -
  have r: "rnd (of_int m * p2 j) = of_int m * p2 j"
    using assms(1,2) by (rule rnd_exact)
  have "\<bar>of_int m * p2 j\<bar> = of_int \<bar>m\<bar> * p2 j"
    using p2_pos [of j] by (simp add: abs_mult)
  also have "\<dots> \<le> of_int (2 ^ 53) * p2 970"
  proof -
    have "(of_int \<bar>m\<bar> :: real) \<le> of_int (2 ^ 53)"
      using assms(1) by (simp only: of_int_le_iff)
    moreover have "p2 j \<le> p2 970"
      using assms(3) by (simp add: p2_le)
    ultimately show ?thesis
      using p2_pos [of j] by (intro mult_mono) simp_all
  qed
  also have "\<dots> = 2 ^ 1023"
    using p2_nat [of 970] by simp
  finally have "\<bar>of_int m * p2 j\<bar> < 2 ^ 1024"
    by simp
  with r show ?thesis by (simp add: round_num_def)
qed

lemma round_num_int:
  assumes "\<bar>m\<bar> < 2 ^ 53"
  shows "round_num (of_int m) = Fin (of_int m)"
  using round_num_exact [OF assms, of 0] by (simp add: p2_0)

lemma round_num_20: "round_num (40 / 2) = Fin 20"
  using round_num_int [of 20] by simp

lemma round_num_le:
  assumes "\<bar>x\<bar> \<le> p2 k" and "- 1074 \<le> k" and "k \<le> 1023"
  shows "round_num x = Fin (rnd x)"
proof -
  have "\<bar>rnd x\<bar> \<le> p2 k" using assms(1,2) by (rule rnd_abs_le)
  also have "p2 k \<le> p2 1023" using assms(3) by (simp add: p2_le)
  also have "p2 1023 < 2 ^ 1024" using p2_nat [of 1023] by simp
  finally show ?thesis by (simp add: round_num_def)
qed

lemma p2_half_ulp: "p2 (- 1075) = p2 (- 1022) / 2 ^ 53"
  using p2_diff [of "- 1022" 53] p2_nat [of 53] by simp

lemma rnd_rel:
  assumes "p2 (- 1022) \<le> z"
  shows "(1 - 1 / 2 ^ 52) * z \<le> rnd z" and "rnd z \<le> (1 + 1 / 2 ^ 52) * z"
proof -
  from assms p2_pos [of "- 1022"] have z: "0 < z" by linarith
  have "p2 (- 1075) \<le> z / 2 ^ 53"
    using assms by (simp add: p2_half_ulp divide_right_mono)
  with rnd_error [of z] z have "\<bar>rnd z - z\<bar> \<le> z / 2 ^ 53 + z / 2 ^ 53"
    by simp
  then have "\<bar>rnd z - z\<bar> \<le> z / 2 ^ 52"
    by simp
  then have "rnd z - z \<le> z / 2 ^ 52" and "z - rnd z \<le> z / 2 ^ 52"
    by linarith+
  then show "(1 - 1 / 2 ^ 52) * z \<le> rnd z" and "rnd z \<le> (1 + 1 / 2 ^ 52) * z"
    by (simp_all add: algebra_simps)
qed

lemma rnd_pos_ge:
  assumes "0 < rnd z"
  shows "p2 (- 1074) \<le> rnd z"
proof -
  from assms have nz: "z \<noteq> 0" by (auto simp add: rnd_0)
  define k where "k = rhe (z / p2 (expo z))"
  have r: "rnd z = p2 (expo z) * of_int k"
    using nz by (simp add: rnd_def k_def)
  with assms p2_pos [of "expo z"] have "0 < (of_int k :: real)"
    by (simp add: zero_less_mult_iff)
  then have "1 \<le> k" by simp
  then have "(1 :: real) \<le> of_int k" by simp
  then have "p2 (expo z) * 1 \<le> p2 (expo z) * of_int k"
    using p2_pos [of "expo z"] by (intro mult_left_mono) simp_all
  moreover have "p2 (- 1074) \<le> p2 (expo z)"
    using expo_ge [of z] by (simp add: p2_le)
  ultimately show ?thesis unfolding r by simp
qed

lemma sqrt_p2: "sqrt (p2 (2 * k)) = p2 k"
proof -
  have "p2 (2 * k) = p2 k * p2 k"
    using p2_add [of k k] by simp
  then show ?thesis using p2_pos [of k] by simp
qed

lemma round_num_nonneg:
  assumes "0 \<le> z"
  shows "round_num z = PInf \<or> (round_num z = Fin (rnd z) \<and> 0 \<le> rnd z)"
proof (cases "2 ^ 1024 \<le> \<bar>rnd z\<bar>")
  case True
  then have "z \<noteq> 0" by (auto simp add: rnd_0)
  with assms True show ?thesis by (simp add: round_num_def)
next
  case False
  with rnd_nonneg [OF assms] show ?thesis by (simp add: round_num_def)
qed

lemma p2_neg_nat: "p2 (- int n) = 1 / 2 ^ n"
  using p2_diff [of 0 "int n"] p2_nat [of n] by (simp add: p2_0)

lemma p2_small: "p2 (- 1) = 1 / 2" "p2 (- 2) = 1 / 4" "p2 (- 4) = 1 / 16"
  using p2_neg_nat [of 1] p2_neg_nat [of 2] p2_neg_nat [of 4] by simp_all

lemma rnd_dyadic:
  "rnd (1 / 4) = 1 / 4" "rnd (3 / 2) = 3 / 2" "rnd (7 / 4) = 7 / 4" "rnd (9 / 16) = 9 / 16"
proof -
  show "rnd (1 / 4) = 1 / 4" using rnd_exact [of 1 "- 2"] by (simp add: p2_small)
  show "rnd (3 / 2) = 3 / 2" using rnd_exact [of 3 "- 1"] by (simp add: p2_small)
  show "rnd (7 / 4) = 7 / 4" using rnd_exact [of 7 "- 2"] by (simp add: p2_small)
  show "rnd (9 / 16) = 9 / 16" using rnd_exact [of 9 "- 4"] by (simp add: p2_small)
qed

section \<open>Theorems: entity container\<close>

text \<open>The removal path does call the cleanup method of the component it removes.\<close>

lemma removeComponent_cleanup:
  assumes "getComponent e k s = Some c" and "has_cleanup (comps s c)"
  shows "cleanup_calls (removeComponent e k s) = cleanup_calls s @ [c]"
    and "getComponent e k (removeComponent e k s) = None"
  using assms
  by (simp_all add: removeComponent_def getComponent_def components_delete_def)

text \<open>What \<open>addComponent\<close> does: the cleanup log is left as it was.\<close>

lemma addComponent_cleanup_calls:
  "cleanup_calls (addComponent e k c s) = cleanup_calls s"
  by (simp add: addComponent_def components_set_def Let_def)

lemma addComponent_replaces:
  "getComponent e k (addComponent e k c2 s) = Some c2"
  "k' \<noteq> k \<Longrightarrow> getComponent e k' (addComponent e k c2 s) = getComponent e k' s"
  "entity (comps (addComponent e k c2 s) c2) =
     (case entity (comps s c2) of None \<Rightarrow> Some e | Some owner \<Rightarrow> Some owner)"
  by (simp_all add: addComponent_def components_set_def getComponent_def Let_def
      split: option.split)

text \<open>
  C1. When a component \<open>c1\<close> of kind \<open>k\<close> is present, \<open>addComponent(k, c2)\<close> should
  replace \<open>c1\<close> with \<open>c2\<close>, call the cleanup hook of \<open>c1\<close> exactly once and set the
  back-reference of \<open>c2\<close> to the entity. In \<open>store0\<close> the entity 0 holds component 1,
  which has a cleanup hook, under \<open>Physics\<close>, and component 3 is not attached to any
  entity. After \<open>addComponent('Physics', 3)\<close> on entity 0 the component is replaced and
  the back-reference is set, but the cleanup hook of component 1 has been called zero
  times; \<open>removeComponent('Physics')\<close> on the same store calls it once.
\<close>

theorem addComponent_skips_cleanup:
  "getComponent 0 ''Physics'' store0 = Some 1
   \<and> has_cleanup (comps store0 1)
   \<and> entity (comps store0 3) = None
   \<and> getComponent 0 ''Physics'' (addComponent 0 ''Physics'' 3 store0) = Some 3
   \<and> entity (comps (addComponent 0 ''Physics'' 3 store0) 3) = Some 0
   \<and> count_list (cleanup_calls (addComponent 0 ''Physics'' 3 store0)) 1 = 0
   \<and> count_list (cleanup_calls (removeComponent 0 ''Physics'' store0)) 1 = 1"
  by (simp add: addComponent_def components_set_def removeComponent_def components_delete_def
      getComponent_def store0_def Let_def)

section \<open>Theorems: game loop\<close>

lemma js_rem_bounds:
  assumes "0 < b" and "b \<le> a"
  shows "0 \<le> js_rem a b" and "js_rem a b \<le> a"
proof -
  from assms have q: "1 \<le> a / b" by simp
  then have q0: "0 \<le> a / b" by linarith
  have "of_int \<lfloor>a / b\<rfloor> * b \<le> a"
    using of_int_floor_le [of "a / b"] assms(1) by (simp only: pos_le_divide_eq)
  then have "b * of_int \<lfloor>a / b\<rfloor> \<le> a"
    by (simp only: mult.commute)
  with q0 show "0 \<le> js_rem a b" by (simp add: js_rem_def)
  have "0 \<le> \<lfloor>a / b\<rfloor>" using q0 by simp
  then have "0 \<le> b * of_int \<lfloor>a / b\<rfloor>"
    using assms(1) by simp
  with q0 show "js_rem a b \<le> a" by (simp add: js_rem_def)
qed

lemma gameLoop_stopped: "\<not> isRunning g \<Longrightarrow> gameLoop t g = g"
  by (simp add: gameLoop_def)

lemma gameLoop_skip:
  assumes "isRunning g" and "\<not> fge (fsub (Fin t) (lastFrameTime g)) (frameInterval g)"
  shows "gameLoop t g = g\<lparr>events := events g @ [RequestFrame]\<rparr>"
  using assms by (simp add: gameLoop_def Let_def requestAnimationFrame_def)

lemma gameLoop_frame:
  assumes "isRunning g" and "fge (fsub (Fin t) (lastFrameTime g)) (frameInterval g)"
  shows "gameLoop t g =
     g\<lparr>events := events g @
          [Update (fdiv (fsub (Fin t) (lastFrameTime g)) (Fin 1000)), Render, RequestFrame],
       lastFrameTime := fsub (Fin t) (frem (fsub (Fin t) (lastFrameTime g)) (frameInterval g))\<rparr>"
  using assms
  by (simp add: gameLoop_def Let_def requestAnimationFrame_def Game_render_def Game_update_def)

lemma fsub_Fin: "fsub (Fin a) (Fin b) = round_num (a - b)"
  by (simp add: fsub_def)

lemma fge_round_num:
  assumes "rnd fi = fi" and "0 < fi" and "fi \<le> z"
  shows "fge (round_num z) (Fin fi)"
proof -
  have "fi \<le> rnd z"
    using rnd_mono [OF assms(3)] assms(1) by simp
  moreover have "0 < z" using assms(2,3) by linarith
  ultimately show ?thesis
    by (simp add: round_num_def)
qed

lemma gameLoop_spaced:
  assumes "lastFrameTime g = Fin l" and "frameInterval g = Fin fi" and "rnd fi = fi"
    and "0 < fi" and "l \<le> tp" and "fi \<le> t - tp"
  shows "fge (fsub (Fin t) (lastFrameTime g)) (frameInterval g)"
proof -
  from assms(5,6) have "fi \<le> t - l" by linarith
  with assms(3,4) have "fge (round_num (t - l)) (Fin fi)" by (rule fge_round_num)
  then show ?thesis by (simp add: assms(1,2) fsub_Fin)
qed

lemma gameLoop_lastFrameTime_le:
  assumes l: "lastFrameTime g = Fin l" and fi: "frameInterval g = Fin fi" and pos: "0 < fi"
    and t: "rnd t = t" and lt: "l \<le> t"
    and bt: "\<bar>t\<bar> \<le> 2 ^ 1000" and bl: "\<bar>l\<bar> \<le> 2 ^ 1000"
  shows "\<exists>l'. lastFrameTime (gameLoop t g) = Fin l' \<and> l' \<le> t"
proof (cases "isRunning g \<and> fge (fsub (Fin t) (lastFrameTime g)) (frameInterval g)")
  case False
  then have "lastFrameTime (gameLoop t g) = lastFrameTime g"
    by (auto simp add: gameLoop_def Let_def requestAnimationFrame_def)
  with l lt show ?thesis by simp
next
  case True
  define d where "d = rnd (t - l)"
  have bt': "\<bar>t\<bar> \<le> p2 1000" and bl': "\<bar>l\<bar> \<le> p2 1000"
    using bt bl p2_nat [of 1000] by simp_all
  have p1: "p2 1001 = p2 1000 * 2" using p2_add [of 1000 1] p2_nat [of 1] by simp
  have p2': "p2 1002 = p2 1001 * 2" using p2_add [of 1001 1] p2_nat [of 1] by simp
  from bt' bl' p1 have b1: "\<bar>t - l\<bar> \<le> p2 1001" by linarith
  then have fd: "round_num (t - l) = Fin d"
    unfolding d_def by (rule round_num_le) simp_all
  have dd: "\<bar>d\<bar> \<le> p2 1001"
    unfolding d_def using b1 by (rule rnd_abs_le) simp
  from True have ge: "fi \<le> d" by (simp add: l fi fsub_Fin fd)
  note r = js_rem_bounds [OF pos ge]
  from r dd bt' p1 p2' have "\<bar>t - js_rem d fi\<bar> \<le> p2 1002"
    using p2_pos [of 1000] by linarith
  then have fl: "round_num (t - js_rem d fi) = Fin (rnd (t - js_rem d fi))"
    by (rule round_num_le) simp_all
  have "rnd (t - js_rem d fi) \<le> rnd t"
    using r(1) by (intro rnd_mono) simp
  with t have le: "rnd (t - js_rem d fi) \<le> t" by simp
  have "lastFrameTime (gameLoop t g) = Fin (rnd (t - js_rem d fi))"
    using True pos by (simp add: gameLoop_frame l fi fsub_Fin fd fl)
  with le show ?thesis by simp
qed

text \<open>
  C2. The specification says: a callback spaced below the frame interval from the previous
  callback performs no update and no render, one spaced at or above it performs exactly one
  update followed by one render. What the code does: a stopped game does nothing at all.
  A running game computes the elapsed time \<open>currentTime - lastFrameTime\<close>; when this is
  not at least the frame interval the callback only requests the next frame; when it is, the
  callback performs one update with \<open>elapsed / 1000\<close>, then one render, then requests the
  next frame, and sets \<open>lastFrameTime\<close> to \<open>currentTime - (elapsed % frameInterval)\<close>.
  Hence a callback at least one interval after a previous timestamp that is not before
  \<open>lastFrameTime\<close> is always processed, and \<open>lastFrameTime\<close> never passes the current
  timestamp (for timestamps up to \<open>2\<^sup>1\<^sup>0\<^sup>0\<^sup>0\<close> in magnitude).
\<close>

theorem gameLoop_frame_limiter:
  "(\<not> isRunning g \<longrightarrow> gameLoop t g = g)
   \<and> (isRunning g \<and> \<not> fge (fsub (Fin t) (lastFrameTime g)) (frameInterval g) \<longrightarrow>
        gameLoop t g = g\<lparr>events := events g @ [RequestFrame]\<rparr>)
   \<and> (isRunning g \<and> fge (fsub (Fin t) (lastFrameTime g)) (frameInterval g) \<longrightarrow>
        gameLoop t g =
          g\<lparr>events := events g @
               [Update (fdiv (fsub (Fin t) (lastFrameTime g)) (Fin 1000)), Render, RequestFrame],
            lastFrameTime :=
              fsub (Fin t) (frem (fsub (Fin t) (lastFrameTime g)) (frameInterval g))\<rparr>)
   \<and> (isRunning g \<and> lastFrameTime g = Fin l \<and> frameInterval g = Fin fi \<and> rnd fi = fi
        \<and> 0 < fi \<and> l \<le> previousTime \<and> fi \<le> t - previousTime \<longrightarrow>
        events (gameLoop t g) = events g @
          [Update (fdiv (fsub (Fin t) (lastFrameTime g)) (Fin 1000)), Render, RequestFrame])
   \<and> (lastFrameTime g = Fin l \<and> frameInterval g = Fin fi \<and> 0 < fi \<and> rnd t = t \<and> l \<le> t
        \<and> \<bar>t\<bar> \<le> 2 ^ 1000 \<and> \<bar>l\<bar> \<le> 2 ^ 1000 \<longrightarrow>
        (\<exists>l'. lastFrameTime (gameLoop t g) = Fin l' \<and> l' \<le> t))"
proof (intro conjI impI)
  assume "\<not> isRunning g"
  then show "gameLoop t g = g" by (rule gameLoop_stopped)
next
  assume "isRunning g \<and> \<not> fge (fsub (Fin t) (lastFrameTime g)) (frameInterval g)"
  then show "gameLoop t g = g\<lparr>events := events g @ [RequestFrame]\<rparr>"
    by (simp add: gameLoop_skip)
next
  assume "isRunning g \<and> fge (fsub (Fin t) (lastFrameTime g)) (frameInterval g)"
  then show "gameLoop t g =
          g\<lparr>events := events g @
               [Update (fdiv (fsub (Fin t) (lastFrameTime g)) (Fin 1000)), Render, RequestFrame],
            lastFrameTime :=
              fsub (Fin t) (frem (fsub (Fin t) (lastFrameTime g)) (frameInterval g))\<rparr>"
    by (simp only: gameLoop_frame)
next
  assume h: "isRunning g \<and> lastFrameTime g = Fin l \<and> frameInterval g = Fin fi \<and> rnd fi = fi
        \<and> 0 < fi \<and> l \<le> previousTime \<and> fi \<le> t - previousTime"
  then have "fge (fsub (Fin t) (lastFrameTime g)) (frameInterval g)"
    by (intro gameLoop_spaced [of g l fi previousTime t]) simp_all
  with h show "events (gameLoop t g) = events g @
          [Update (fdiv (fsub (Fin t) (lastFrameTime g)) (Fin 1000)), Render, RequestFrame]"
    by (simp add: gameLoop_frame)
next
  assume "lastFrameTime g = Fin l \<and> frameInterval g = Fin fi \<and> 0 < fi \<and> rnd t = t \<and> l \<le> t
        \<and> \<bar>t\<bar> \<le> 2 ^ 1000 \<and> \<bar>l\<bar> \<le> 2 ^ 1000"
  then show "\<exists>l'. lastFrameTime (gameLoop t g) = Fin l' \<and> l' \<le> t"
    by (intro gameLoop_lastFrameTime_le [of g l fi t]) simp_all
qed

text \<open>The frame interval \<open>1000 / 60\<close> as a double lies between 16 and 17.\<close>

lemma frameInterval_value:
  "frameInterval new_Game = Fin (rnd (1000 / 60))"
  "16 \<le> rnd (1000 / 60)" "rnd (1000 / 60) \<le> 17"
proof -
  have "\<bar>1000 / 60 :: real\<bar> \<le> p2 5" using p2_nat [of 5] by simp
  then have "round_num (1000 / 60) = Fin (rnd (1000 / 60))"
    by (rule round_num_le) simp_all
  then show "frameInterval new_Game = Fin (rnd (1000 / 60))"
    by (simp add: new_Game_def)
  have "rnd 16 \<le> rnd (1000 / 60)" "rnd (1000 / 60) \<le> rnd 17"
    by (rule rnd_mono; simp)+
  then show "16 \<le> rnd (1000 / 60)" "rnd (1000 / 60) \<le> 17"
    using rnd_int [of 16] rnd_int [of 17] by simp_all
qed

lemma round_num_small_int:
  "round_num 20 = Fin 20" "round_num 0 = Fin 0"
  using round_num_int [of 20] round_num_int [of 0] by simp_all

lemma game_after_20_fields:
  "isRunning game_after_20"
  "lastFrameTime game_after_20 = Fin (rnd (1000 / 60))"
  "frameInterval game_after_20 = Fin (rnd (1000 / 60))"
  "events game_after_20 = [RequestFrame, Update (fdiv (Fin 20) (Fin 1000)), Render, RequestFrame]"
proof -
  define fi where "fi = rnd (1000 / 60)"
  note v = frameInterval_value [folded fi_def]
  define g0 where "g0 = start 0 new_Game"
  have g0: "isRunning g0" "lastFrameTime g0 = Fin 0" "frameInterval g0 = Fin fi"
    "events g0 = [RequestFrame]"
    using v(1) by (simp_all add: g0_def start_def new_Game_def requestAnimationFrame_def)
  have d: "fsub (Fin 20) (lastFrameTime g0) = Fin 20"
    by (simp add: g0 fsub_Fin round_num_small_int)
  have ge: "fge (fsub (Fin 20) (lastFrameTime g0)) (frameInterval g0)"
    using v(3) unfolding d by (simp add: g0)
  have "1 \<le> 20 / fi" "20 / fi < 2"
    using v(2,3) by (simp_all add: field_simps)
  then have "\<lfloor>20 / fi\<rfloor> = 1" by (intro floor_unique) simp_all
  then have rem: "js_rem 20 fi = 20 - fi"
    using v(2) by (simp add: js_rem_def)
  have "rnd fi = fi" unfolding fi_def by (rule rnd_idem)
  moreover have "\<bar>fi\<bar> \<le> p2 5" using v(2,3) p2_nat [of 5] by simp
  then have "round_num fi = Fin (rnd fi)" by (rule round_num_le) simp_all
  ultimately have rt: "round_num (20 - (20 - fi)) = Fin fi" by simp
  have nz: "fi \<noteq> 0" using v(2) by simp
  have l: "fsub (Fin 20) (frem (Fin 20) (frameInterval g0)) = Fin fi"
    by (simp only: g0 frem.simps nz if_False rem fsub_Fin rt)
  have "game_after_20 = gameLoop 20 g0"
    by (simp add: game_after_20_def g0_def)
  also have "\<dots> = g0\<lparr>events := events g0 @
          [Update (fdiv (fsub (Fin 20) (lastFrameTime g0)) (Fin 1000)), Render, RequestFrame],
       lastFrameTime := fsub (Fin 20) (frem (fsub (Fin 20) (lastFrameTime g0)) (frameInterval g0))\<rparr>"
    using g0(1) ge by (rule gameLoop_frame)
  finally have e: "game_after_20 = g0\<lparr>events := events g0 @
          [Update (fdiv (Fin 20) (Fin 1000)), Render, RequestFrame], lastFrameTime := Fin fi\<rparr>"
    by (simp only: d l)
  show "isRunning game_after_20"
    "lastFrameTime game_after_20 = Fin (rnd (1000 / 60))"
    "frameInterval game_after_20 = Fin (rnd (1000 / 60))"
    "events game_after_20 = [RequestFrame, Update (fdiv (Fin 20) (Fin 1000)), Render, RequestFrame]"
    unfolding fi_def [symmetric] by (simp_all add: e g0)
qed

lemma game_after_20_at_34:
  "fge (fsub (Fin 34) (lastFrameTime game_after_20)) (frameInterval game_after_20)"
proof -
  define fi where "fi = rnd (1000 / 60)"
  note v = frameInterval_value [folded fi_def] and f = game_after_20_fields [folded fi_def]
  have "rnd fi = fi" unfolding fi_def by (rule rnd_idem)
  moreover have "0 < fi" "fi \<le> 34 - fi" using v(2,3) by simp_all
  ultimately have "fge (round_num (34 - fi)) (Fin fi)" by (rule fge_round_num)
  then show ?thesis by (simp add: f fsub_Fin)
qed

lemma game_after_20_at_30:
  "\<not> fge (fsub (Fin 30) (lastFrameTime game_after_20)) (frameInterval game_after_20)"
proof -
  define fi where "fi = rnd (1000 / 60)"
  note v = frameInterval_value [folded fi_def] and f = game_after_20_fields [folded fi_def]
  have "rnd (30 - fi) \<le> rnd 14" using v(2) by (intro rnd_mono) simp
  then have le: "rnd (30 - fi) \<le> 14" using rnd_int [of 14] by simp
  have "\<bar>30 - fi\<bar> \<le> p2 5" using v(2,3) p2_nat [of 5] by simp
  then have "round_num (30 - fi) = Fin (rnd (30 - fi))" by (rule round_num_le) simp_all
  with le v(2) show ?thesis by (simp add: f fsub_Fin)
qed

theorem gameLoop_frame_limiter_witness:
  "gameLoop 100 (stop game_after_20) = stop game_after_20
   \<and> gameLoop 30 game_after_20 = game_after_20\<lparr>events := events game_after_20 @ [RequestFrame]\<rparr>
   \<and> events (gameLoop 34 game_after_20) = events game_after_20 @
        [Update (fdiv (fsub (Fin 34) (lastFrameTime game_after_20)) (Fin 1000)), Render, RequestFrame]
   \<and> events (gameLoop 40 game_after_20) = events game_after_20 @
        [Update (fdiv (fsub (Fin 40) (lastFrameTime game_after_20)) (Fin 1000)), Render, RequestFrame]
   \<and> (\<exists>l'. lastFrameTime (gameLoop 34 game_after_20) = Fin l' \<and> l' \<le> 34)"
proof -
  define fi where "fi = rnd (1000 / 60)"
  note v = frameInterval_value [folded fi_def] and f = game_after_20_fields [folded fi_def]
  have idem: "rnd fi = fi" unfolding fi_def by (rule rnd_idem)
  have s: "\<not> isRunning (stop game_after_20)" by (simp add: stop_def)
  have 1: "gameLoop 100 (stop game_after_20) = stop game_after_20"
    using gameLoop_frame_limiter [of "stop game_after_20" 100] s by blast
  have 2: "gameLoop 30 game_after_20 = game_after_20\<lparr>events := events game_after_20 @ [RequestFrame]\<rparr>"
    using gameLoop_frame_limiter [of game_after_20 30] f(1) game_after_20_at_30 by blast
  have "gameLoop 34 game_after_20 =
          game_after_20\<lparr>events := events game_after_20 @
               [Update (fdiv (fsub (Fin 34) (lastFrameTime game_after_20)) (Fin 1000)), Render, RequestFrame],
            lastFrameTime :=
              fsub (Fin 34) (frem (fsub (Fin 34) (lastFrameTime game_after_20)) (frameInterval game_after_20))\<rparr>"
    using gameLoop_frame_limiter [of game_after_20 34] f(1) game_after_20_at_34 by blast
  then have 3: "events (gameLoop 34 game_after_20) = events game_after_20 @
        [Update (fdiv (fsub (Fin 34) (lastFrameTime game_after_20)) (Fin 1000)), Render, RequestFrame]"
    by simp
  have h4: "isRunning game_after_20 \<and> lastFrameTime game_after_20 = Fin fi
      \<and> frameInterval game_after_20 = Fin fi \<and> rnd fi = fi \<and> 0 < fi \<and> fi \<le> 20 \<and> fi \<le> 40 - 20"
    using f v(2,3) idem by simp
  have 4: "events (gameLoop 40 game_after_20) = events game_after_20 @
        [Update (fdiv (fsub (Fin 40) (lastFrameTime game_after_20)) (Fin 1000)), Render, RequestFrame]"
    using gameLoop_frame_limiter [of game_after_20 40 fi fi 20] h4 by blast
  have h5: "lastFrameTime game_after_20 = Fin fi \<and> frameInterval game_after_20 = Fin fi \<and> 0 < fi
      \<and> rnd 34 = 34 \<and> fi \<le> 34 \<and> \<bar>34 :: real\<bar> \<le> 2 ^ 1000 \<and> \<bar>fi\<bar> \<le> 2 ^ 1000"
    using f v(2,3) rnd_int [of 34] by simp
  have 5: "\<exists>l'. lastFrameTime (gameLoop 34 game_after_20) = Fin l' \<and> l' \<le> 34"
    using gameLoop_frame_limiter [of game_after_20 34 fi fi] h5 by blast
  from 1 2 3 4 5 show ?thesis by blast
qed

text \<open>
  The game is started at 0 and called back at 20 (processed) and at 34: the second callback
  is 14 ms after the first, below the frame interval, and still performs an update and a
  render.
\<close>

theorem gameLoop_claim_counterexample:
  "game_after_20 = gameLoop 20 (start 0 new_Game)
   \<and> isRunning game_after_20
   \<and> frameInterval game_after_20 = Fin (rnd (1000 / 60))
   \<and> (34 :: real) - 20 < rnd (1000 / 60)
   \<and> events (gameLoop 34 game_after_20) = events game_after_20 @
        [Update (fdiv (fsub (Fin 34) (lastFrameTime game_after_20)) (Fin 1000)), Render, RequestFrame]"
proof -
  note f = game_after_20_fields
  have 1: "(34 :: real) - 20 < rnd (1000 / 60)"
    using frameInterval_value(2) by simp
  have 2: "events (gameLoop 34 game_after_20) = events game_after_20 @
        [Update (fdiv (fsub (Fin 34) (lastFrameTime game_after_20)) (Fin 1000)), Render, RequestFrame]"
    using f(1) game_after_20_at_34 by (simp add: gameLoop_frame)
  from f(1,3) 1 2 show ?thesis
    by (simp only: game_after_20_def)
qed

section \<open>Theorems: Physics component\<close>

lemma applyForce_keeps:
  "isStatic (applyForce fx fy p) = isStatic p"
  "maxSpeed (applyForce fx fy p) = maxSpeed p"
  "friction (applyForce fx fy p) = friction p"
  "speed (applyForce fx fy p) = speed p"
  "direction (applyForce fx fy p) = direction p"
  by (simp_all add: applyForce_def Let_def)

lemma Physics_update_keeps:
  "isStatic (fst (Physics_update dt (p, tr))) = isStatic p"
  "maxSpeed (fst (Physics_update dt (p, tr))) = maxSpeed p"
  "friction (fst (Physics_update dt (p, tr))) = friction p"
  by (simp_all add: Physics_update_def Let_def)

lemma Physics_update_speed_le:
  "\<not> isStatic p \<Longrightarrow> speed (fst (Physics_update dt (p, tr))) \<le> maxSpeed p"
  by (simp add: Physics_update_def Let_def)

lemma physics_calls_keeps:
  "isStatic (fst (physics_calls cs pt)) = isStatic (fst pt)
   \<and> maxSpeed (fst (physics_calls cs pt)) = maxSpeed (fst pt)
   \<and> friction (fst (physics_calls cs pt)) = friction (fst pt)"
proof (induction cs pt rule: physics_calls.induct)
  case (1 pt)
  show ?case by simp
next
  case (2 fx fy cs pt)
  then show ?case by (simp add: applyForce_keeps)
next
  case (3 dt cs pt)
  obtain p tr where pt: "pt = (p, tr)" by (cases pt)
  from 3 show ?case by (simp add: pt Physics_update_keeps)
qed

lemma physics_calls_append:
  "physics_calls (cs @ ds) pt = physics_calls ds (physics_calls cs pt)"
  by (induction cs pt rule: physics_calls.induct) simp_all


text \<open>
  C5. For a non-static Physics component with friction at most 1, after any sequence of
  \<open>applyForce\<close> and \<open>update\<close> calls, the speed observed right after an \<open>update\<close> does not
  exceed \<open>maxSpeed\<close>. (The bound comes from the clamp alone; the friction hypothesis of the
  claim is kept but not needed.)
\<close>

theorem speed_never_exceeds_maxSpeed:
  assumes "\<not> isStatic p" and "friction p \<le> 1"
  shows "speed (fst (physics_calls (cs @ [UpdateCall dt]) (p, tr))) \<le> maxSpeed p"
proof -
  obtain q tq where q: "physics_calls cs (p, tr) = (q, tq)"
    by (cases "physics_calls cs (p, tr)")
  have k: "isStatic q = isStatic p" "maxSpeed q = maxSpeed p"
    using physics_calls_keeps [of cs "(p, tr)"] by (simp_all add: q)
  have "speed (fst (Physics_update dt (q, tq))) \<le> maxSpeed q"
    using assms(1) k(1) by (simp add: Physics_update_speed_le)
  then show ?thesis
    by (simp add: physics_calls_append q k(2))
qed

theorem speed_never_exceeds_maxSpeed_witness:
  "\<not> isStatic new_Physics \<and> friction new_Physics \<le> 1
   \<and> speed (fst (physics_calls ([ApplyForce 30000 40000, UpdateCall 1, ApplyForce 0 7] @ [UpdateCall 2])
        (new_Physics, None))) \<le> maxSpeed new_Physics"
proof -
  have h: "\<not> isStatic new_Physics" "friction new_Physics \<le> 1"
    by (simp_all add: new_Physics_def)
  from speed_never_exceeds_maxSpeed [OF h] h show ?thesis
    by blast
qed



text \<open>
  C8. With friction 0.9, acceleration 0, speed 10 and maxSpeed 100, one \<open>update\<close> of a
  non-static component gives speed 9 for every \<open>deltaTime\<close> (exactly, in real arithmetic).
\<close>

theorem friction_tick:
  assumes "\<not> isStatic p" and "friction p = 9 / 10" and "acceleration p = 0"
    and "speed p = 10" and "maxSpeed p = 100"
  shows "speed (fst (Physics_update deltaTime (p, tr))) = 9"
  using assms by (simp add: Physics_update_def Let_def)

theorem friction_tick_witness:
  "\<not> isStatic (new_Physics\<lparr>speed := 10\<rparr>)
   \<and> speed (fst (Physics_update (1 / 60) (new_Physics\<lparr>speed := 10\<rparr>, None))) = 9
   \<and> speed (fst (Physics_update 5 (new_Physics\<lparr>speed := 10\<rparr>, None))) = 9"
proof -
  let ?p = "new_Physics\<lparr>speed := 10\<rparr>"
  have h: "\<not> isStatic ?p" "friction ?p = 9 / 10" "acceleration ?p = 0"
    "speed ?p = 10" "maxSpeed ?p = 100"
    by (simp_all add: new_Physics_def)
  from friction_tick [OF h, of "1 / 60" None] friction_tick [OF h, of 5 None] h(1)
  show ?thesis by simp
qed

text \<open>
  C9. \<open>Physics.update\<close> on a static component changes no field of the component and
  writes nothing into the Transform of the owning entity, for every \<open>deltaTime\<close>.
\<close>

theorem static_update_unchanged:
  assumes "isStatic p"
  shows "Physics_update deltaTime (p, tr) = (p, tr)"
  using assms by (simp add: Physics_update_def)

theorem static_update_unchanged_witness:
  "isStatic (new_Physics\<lparr>isStatic := True, speed := 10, acceleration := 3\<rparr>)
   \<and> Physics_update (1 / 60)
        (new_Physics\<lparr>isStatic := True, speed := 10, acceleration := 3\<rparr>, Some (new_Transform 5 6 0))
      = (new_Physics\<lparr>isStatic := True, speed := 10, acceleration := 3\<rparr>, Some (new_Transform 5 6 0))"
proof -
  have h: "isStatic (new_Physics\<lparr>isStatic := True, speed := 10, acceleration := 3\<rparr>)"
    by simp
  from static_update_unchanged [OF h] h show ?thesis
    by blast
qed

section \<open>Theorems: setDirection\<close>

lemma abs_le_norm2: "\<bar>x\<bar> \<le> sqrt (x\<^sup>2 + y\<^sup>2)"
proof -
  have "sqrt (x\<^sup>2) \<le> sqrt (x\<^sup>2 + y\<^sup>2)"
    by (rule real_sqrt_le_mono) simp
  then show ?thesis by simp
qed

text \<open>The computed magnitude is the exact one up to a factor \<open>1 \<plusminus> 2\<^sup>-\<^sup>5\<^sup>0\<close>.\<close>

lemma magnitude_accuracy:
  fixes x y :: real
  assumes lo: "1 / 2 ^ 500 \<le> max \<bar>x\<bar> \<bar>y\<bar>" and hx: "\<bar>x\<bar> \<le> 2 ^ 500" and hy: "\<bar>y\<bar> \<le> 2 ^ 500"
  shows "\<exists>m. magnitude_of x y = Fin m
           \<and> (1 - 1 / 2 ^ 50) * sqrt (x\<^sup>2 + y\<^sup>2) \<le> m
           \<and> m \<le> (1 + 1 / 2 ^ 50) * sqrt (x\<^sup>2 + y\<^sup>2)"
proof -
  define S where "S = x\<^sup>2 + y\<^sup>2"
  define R where "R = sqrt S"
  define xx where "xx = rnd (x * x)"
  define yy where "yy = rnd (y * y)"
  define t where "t = xx + yy"
  define s where "s = rnd t"
  define r where "r = sqrt s"
  define m where "m = rnd r"
  let ?v = "1 / 2 ^ 52 :: real"
  have lo500: "p2 (- 500) = 1 / 2 ^ 500" and hi500: "p2 500 = 2 ^ 500"
    using p2_nat [of 500] p2_diff [of 0 500] by (simp_all add: p2_0)
  have S0: "0 \<le> S" by (simp add: S_def)
  have R0: "0 \<le> R" using S0 by (simp add: R_def)
  have "\<bar>x\<bar> \<le> R" "\<bar>y\<bar> \<le> R"
    using abs_le_norm2 [of x y] abs_le_norm2 [of y x] by (simp_all add: R_def S_def add.commute)
  with lo have Rlo: "p2 (- 500) \<le> R"
    by (simp add: lo500 max_def split: if_splits)
  have RR: "R * R = S"
    using S0 by (simp add: R_def)
  have "p2 (- 500) * p2 (- 500) \<le> R * R"
    using Rlo p2_pos [of "- 500"] by (intro mult_mono) simp_all
  then have Slo: "p2 (- 1000) \<le> S"
    using p2_add [of "- 500" "- 500"] by (simp add: RR)
  have Spos: "0 < S" using Slo p2_pos [of "- 1000"] by linarith
  have xs: "\<bar>x * x\<bar> \<le> p2 1000" and ys: "\<bar>y * y\<bar> \<le> p2 1000"
  proof -
    have "\<bar>x\<bar> * \<bar>x\<bar> \<le> 2 ^ 500 * 2 ^ 500" "\<bar>y\<bar> * \<bar>y\<bar> \<le> 2 ^ 500 * 2 ^ 500"
      using hx hy by (intro mult_mono; simp)+
    moreover have "p2 1000 = 2 ^ 500 * 2 ^ 500"
      using p2_add [of 500 500] by (simp add: hi500)
    ultimately show "\<bar>x * x\<bar> \<le> p2 1000" and "\<bar>y * y\<bar> \<le> p2 1000"
      by (simp_all add: abs_mult)
  qed
  have fx: "round_num (x * x) = Fin xx" and fy: "round_num (y * y) = Fin yy"
    unfolding xx_def yy_def using xs ys by (simp_all add: round_num_le)
  have xx0: "0 \<le> xx" and yy0: "0 \<le> yy"
    unfolding xx_def yy_def by (simp_all add: rnd_nonneg)
  have ex: "\<bar>xx - x * x\<bar> \<le> (x * x) / 2 ^ 53 + p2 (- 1075)"
    and ey: "\<bar>yy - y * y\<bar> \<le> (y * y) / 2 ^ 53 + p2 (- 1075)"
    unfolding xx_def yy_def using rnd_error [of "x * x"] rnd_error [of "y * y"]
    by (simp_all add: abs_mult)
  have tiny: "2 * p2 (- 1075) \<le> S / 2 ^ 53"
  proof -
    have "2 * p2 (- 1075) = p2 (- 1074)"
      using p2_add [of "- 1075" 1] p2_nat [of 1] by simp
    also have "\<dots> \<le> p2 (- 1053)" by (simp add: p2_le)
    also have "\<dots> = p2 (- 1000) / 2 ^ 53"
      using p2_diff [of "- 1000" 53] p2_nat [of 53] by simp
    also have "\<dots> \<le> S / 2 ^ 53"
      using Slo by (simp add: divide_right_mono)
    finally show ?thesis .
  qed
  have "\<bar>t - S\<bar> \<le> S / 2 ^ 53 + 2 * p2 (- 1075)"
    using ex ey by (simp add: t_def S_def power2_eq_square add_divide_distrib)
  with tiny have "\<bar>t - S\<bar> \<le> S / 2 ^ 53 + S / 2 ^ 53"
    by linarith
  then have "\<bar>t - S\<bar> \<le> S / 2 ^ 52"
    by simp
  then have "t - S \<le> S / 2 ^ 52" and "S - t \<le> S / 2 ^ 52"
    by linarith+
  then have t1: "(1 - ?v) * S \<le> t" and t2: "t \<le> (1 + ?v) * S"
    by (simp_all add: algebra_simps)
  have thalf: "S / 2 \<le> t"
    using t1 Spos by (simp add: algebra_simps)
  have tlo: "p2 (- 1022) \<le> t"
  proof -
    have "p2 (- 1022) \<le> p2 (- 1001)" by (simp add: p2_le)
    also have "\<dots> = p2 (- 1000) / 2"
      using p2_diff [of "- 1000" 1] p2_nat [of 1] by simp
    also have "\<dots> \<le> S / 2" using Slo by simp
    finally show ?thesis using thalf by simp
  qed
  have thi: "\<bar>t\<bar> \<le> p2 1001"
  proof -
    have "\<bar>xx\<bar> \<le> p2 1000" "\<bar>yy\<bar> \<le> p2 1000"
      unfolding xx_def yy_def using xs ys by (simp_all add: rnd_abs_le)
    moreover have "p2 1001 = p2 1000 * 2"
      using p2_add [of 1000 1] p2_nat [of 1] by simp
    ultimately show ?thesis by (simp add: t_def)
  qed
  have ft: "round_num t = Fin s"
    unfolding s_def using thi by (simp add: round_num_le)
  have s1: "(1 - ?v) * t \<le> s" and s2: "s \<le> (1 + ?v) * t"
    unfolding s_def using tlo by (rule rnd_rel)+
  define c1 where "c1 = (1 - ?v) * R"
  define c2 where "c2 = (1 + ?v) * R"
  have c10: "0 \<le> c1" and c20: "0 \<le> c2"
    using R0 by (simp_all add: c1_def c2_def)
  have sS1: "c1 * c1 \<le> s"
  proof -
    have "(1 - ?v) * ((1 - ?v) * S) \<le> (1 - ?v) * t"
      using t1 by (intro mult_left_mono) simp_all
    moreover have "c1 * c1 = (1 - ?v) * ((1 - ?v) * S)"
      by (simp only: c1_def RR [symmetric] mult_ac)
    ultimately show ?thesis using s1 by linarith
  qed
  have sS2: "s \<le> c2 * c2"
  proof -
    have "(1 + ?v) * t \<le> (1 + ?v) * ((1 + ?v) * S)"
      using t2 by (intro mult_left_mono) simp_all
    moreover have "c2 * c2 = (1 + ?v) * ((1 + ?v) * S)"
      by (simp only: c2_def RR [symmetric] mult_ac)
    ultimately show ?thesis using s2 by linarith
  qed
  have s0: "0 \<le> s"
    using sS1 c10 mult_nonneg_nonneg [OF c10 c10] by linarith
  have r1: "c1 \<le> r"
  proof -
    have "sqrt (c1 * c1) \<le> sqrt s"
      using sS1 by (rule real_sqrt_le_mono)
    then show ?thesis using c10 by (simp add: r_def)
  qed
  have r2: "r \<le> c2"
  proof -
    have "sqrt s \<le> sqrt (c2 * c2)"
      using sS2 by (rule real_sqrt_le_mono)
    then show ?thesis using c20 by (simp add: r_def)
  qed
  have rlo: "p2 (- 1022) \<le> r"
  proof -
    have "p2 (- 1022) \<le> p2 (- 501)" by (simp add: p2_le)
    also have "\<dots> = p2 (- 500) / 2"
      using p2_diff [of "- 500" 1] p2_nat [of 1] by simp
    also have "\<dots> \<le> R / 2" using Rlo by simp
    also have "\<dots> \<le> c1" using R0 by (simp add: c1_def algebra_simps)
    finally show ?thesis using r1 by simp
  qed
  have m1: "(1 - ?v) * r \<le> m" and m2: "m \<le> (1 + ?v) * r"
    unfolding m_def using rlo by (rule rnd_rel)+
  have M1: "(1 - 1 / 2 ^ 50) * R \<le> m"
  proof -
    have "(1 - ?v) * c1 \<le> (1 - ?v) * r"
      using r1 by (intro mult_left_mono) simp_all
    moreover have "(1 - 1 / 2 ^ 50) * R \<le> ((1 - ?v) * (1 - ?v)) * R"
      using R0 by (intro mult_right_mono) simp_all
    moreover have "((1 - ?v) * (1 - ?v)) * R = (1 - ?v) * c1"
      by (simp only: c1_def mult.assoc)
    ultimately show ?thesis using m1 by linarith
  qed
  have M2: "m \<le> (1 + 1 / 2 ^ 50) * R"
  proof -
    have "(1 + ?v) * r \<le> (1 + ?v) * c2"
      using r2 by (intro mult_left_mono) simp_all
    moreover have "((1 + ?v) * (1 + ?v)) * R \<le> (1 + 1 / 2 ^ 50) * R"
      using R0 by (intro mult_right_mono) simp_all
    moreover have "((1 + ?v) * (1 + ?v)) * R = (1 + ?v) * c2"
      by (simp only: c2_def mult.assoc)
    ultimately show ?thesis using m2 by linarith
  qed
  have "magnitude_of x y = Fin m"
    using s0 by (simp add: magnitude_of_def fx fy t_def [symmetric] ft r_def m_def)
  with M1 M2 show ?thesis
    by (auto simp add: R_def S_def)
qed


lemma quotient_accuracy:
  fixes x m R :: real
  assumes x: "\<bar>x\<bar> \<le> R" and R: "0 < R"
    and m1: "(1 - 1 / 2 ^ 50) * R \<le> m" and m2: "m \<le> (1 + 1 / 2 ^ 50) * R"
  shows "round_num (x / m) = Fin (rnd (x / m))"
    and "\<bar>rnd (x / m) - x / R\<bar> \<le> 1 / 2 ^ 48"
proof -
  let ?w = "1 / 2 ^ 50 :: real"
  define q where "q = x / m"
  define k where "k = m / R"
  have "R / 2 \<le> (1 - ?w) * R" using R by (simp add: algebra_simps)
  with m1 R have mpos: "0 < m" and half: "R \<le> 2 * m" by linarith+
  have q2: "\<bar>q\<bar> \<le> 2"
  proof -
    have "\<bar>x\<bar> \<le> 2 * m" using x half by linarith
    then show ?thesis using mpos by (simp add: q_def field_simps)
  qed
  have k1: "1 - ?w \<le> k" and k2: "k \<le> 1 + ?w"
    using m1 m2 R by (simp_all add: k_def field_simps)
  have xR: "x / R = q * k"
    using mpos R by (simp add: q_def k_def)
  have "\<bar>q - x / R\<bar> = \<bar>q\<bar> * \<bar>1 - k\<bar>"
    by (simp add: xR abs_mult [symmetric] algebra_simps)
  also have "\<dots> \<le> 2 * ?w"
  proof (rule mult_mono)
    show "\<bar>1 - k\<bar> \<le> ?w" using k1 k2 by linarith
  qed (use q2 in simp_all)
  finally have d: "\<bar>q - x / R\<bar> \<le> 2 * ?w" .
  have "p2 (- 1075) \<le> p2 (- 53)" by (simp add: p2_le)
  also have "p2 (- 53) = 1 / 2 ^ 53"
    using p2_diff [of 0 53] p2_nat [of 53] by (simp add: p2_0)
  finally have tiny: "p2 (- 1075) \<le> 1 / 2 ^ 53" .
  have "\<bar>q\<bar> / 2 ^ 53 \<le> 2 / 2 ^ 53"
    using q2 by (simp add: divide_right_mono)
  with rnd_error [of q] tiny have "\<bar>rnd q - q\<bar> \<le> 2 / 2 ^ 53 + 1 / 2 ^ 53"
    by linarith
  then have e: "\<bar>rnd q - q\<bar> \<le> ?w" by simp
  have "\<bar>rnd q - x / R\<bar> \<le> \<bar>rnd q - q\<bar> + \<bar>q - x / R\<bar>"
    by linarith
  with d e have "\<bar>rnd q - x / R\<bar> \<le> ?w + 2 * ?w" by linarith
  then show "\<bar>rnd (x / m) - x / R\<bar> \<le> 1 / 2 ^ 48"
    by (simp add: q_def)
  have "\<bar>q\<bar> \<le> p2 1" using q2 p2_nat [of 1] by simp
  then show "round_num (x / m) = Fin (rnd (x / m))"
    unfolding q_def by (rule round_num_le) simp_all
qed

lemma magnitude_3_4: "magnitude_of 3 4 = Fin 5"
proof -
  have "round_num (3 * 3) = Fin 9" "round_num (4 * 4) = Fin 16" "round_num (9 + 16) = Fin 25"
    using round_num_int [of 9] round_num_int [of 16] round_num_int [of 25] by simp_all
  moreover have "sqrt 25 = 5"
    using real_sqrt_abs [of 5] by simp
  moreover have "rnd 5 = 5"
    using rnd_int [of 5] by simp
  ultimately show ?thesis
    by (simp add: magnitude_of_def)
qed

lemma magnitude_0_0: "magnitude_of 0 0 = Fin 0"
  using round_num_int [of 0] by (simp add: magnitude_of_def rnd_0)

text \<open>
  C7. For a vector \<open>(x, y)\<close> whose larger component lies between \<open>2\<^sup>-\<^sup>5\<^sup>0\<^sup>0\<close> and \<open>2\<^sup>5\<^sup>0\<^sup>0\<close> in
  magnitude, \<open>setDirection(x, y)\<close> stores the quotients of \<open>x\<close> and \<open>y\<close> by the computed
  magnitude, which is positive, and changes nothing else; each stored component is within
  \<open>2\<^sup>-\<^sup>4\<^sup>8\<close> of the component of the unit vector \<open>(x, y) / |(x, y)|\<close>. \<open>setDirection(3, 4)\<close>
  stores the doubles \<open>0.6\<close> and \<open>0.8\<close>; \<open>setDirection(0, 0)\<close> leaves the component as it was.
\<close>

theorem setDirection_effect:
  "(1 / 2 ^ 500 \<le> max \<bar>x\<bar> \<bar>y\<bar> \<and> \<bar>x\<bar> \<le> 2 ^ 500 \<and> \<bar>y\<bar> \<le> 2 ^ 500 \<longrightarrow>
      (\<exists>m. magnitude_of x y = Fin m \<and> 0 < m
         \<and> setDirection x y p = Some (p\<lparr>direction := (rnd (x / m), rnd (y / m))\<rparr>)
         \<and> \<bar>rnd (x / m) - x / sqrt (x\<^sup>2 + y\<^sup>2)\<bar> \<le> 1 / 2 ^ 48
         \<and> \<bar>rnd (y / m) - y / sqrt (x\<^sup>2 + y\<^sup>2)\<bar> \<le> 1 / 2 ^ 48))
   \<and> setDirection 3 4 p = Some (p\<lparr>direction := (rnd (6 / 10), rnd (8 / 10))\<rparr>)
   \<and> setDirection 0 0 p = Some p"
proof (intro conjI impI)
  assume h: "1 / 2 ^ 500 \<le> max \<bar>x\<bar> \<bar>y\<bar> \<and> \<bar>x\<bar> \<le> 2 ^ 500 \<and> \<bar>y\<bar> \<le> 2 ^ 500"
  define R where "R = sqrt (x\<^sup>2 + y\<^sup>2)"
  from h magnitude_accuracy [of x y] obtain m where
    mg: "magnitude_of x y = Fin m" and m1: "(1 - 1 / 2 ^ 50) * R \<le> m"
    and m2: "m \<le> (1 + 1 / 2 ^ 50) * R"
    unfolding R_def by blast
  have xR: "\<bar>x\<bar> \<le> R" and yR: "\<bar>y\<bar> \<le> R"
    using abs_le_norm2 [of x y] abs_le_norm2 [of y x] by (simp_all add: R_def add.commute)
  have "0 < max \<bar>x\<bar> \<bar>y\<bar>" using h by (simp add: less_le_trans [of 0 "1 / 2 ^ 500"])
  with xR yR have R: "0 < R" by (simp add: max_def split: if_splits)
  have "R / 2 \<le> (1 - 1 / 2 ^ 50) * R" using R by (simp add: algebra_simps)
  with m1 R have mpos: "0 < m" by linarith
  note qx = quotient_accuracy [OF xR R m1 m2] and qy = quotient_accuracy [OF yR R m1 m2]
  have "setDirection x y p = Some (p\<lparr>direction := (rnd (x / m), rnd (y / m))\<rparr>)"
    using mpos by (simp add: setDirection_def mg qx(1) qy(1))
  with mg mpos qx(2) qy(2)
  show "\<exists>m. magnitude_of x y = Fin m \<and> 0 < m
         \<and> setDirection x y p = Some (p\<lparr>direction := (rnd (x / m), rnd (y / m))\<rparr>)
         \<and> \<bar>rnd (x / m) - x / sqrt (x\<^sup>2 + y\<^sup>2)\<bar> \<le> 1 / 2 ^ 48
         \<and> \<bar>rnd (y / m) - y / sqrt (x\<^sup>2 + y\<^sup>2)\<bar> \<le> 1 / 2 ^ 48"
    unfolding R_def by blast
next
  have "round_num (3 / 5) = Fin (rnd (3 / 5))" "round_num (4 / 5) = Fin (rnd (4 / 5))"
    by (rule round_num_le [of _ 0]; simp add: p2_0)+
  then show "setDirection 3 4 p = Some (p\<lparr>direction := (rnd (6 / 10), rnd (8 / 10))\<rparr>)"
    by (simp add: setDirection_def magnitude_3_4)
next
  show "setDirection 0 0 p = Some p"
    by (simp add: setDirection_def magnitude_0_0)
qed

theorem setDirection_effect_witness:
  "1 / 2 ^ 500 \<le> max \<bar>3 :: real\<bar> \<bar>4\<bar> \<and> \<bar>3 :: real\<bar> \<le> 2 ^ 500 \<and> \<bar>4 :: real\<bar> \<le> 2 ^ 500
   \<and> magnitude_of 3 4 = Fin 5
   \<and> setDirection 3 4 new_Physics = Some (new_Physics\<lparr>direction := (rnd (3 / 5), rnd (4 / 5))\<rparr>)
   \<and> \<bar>rnd (3 / 5) - 3 / 5\<bar> \<le> 1 / 2 ^ 48
   \<and> \<bar>rnd (4 / 5) - 4 / 5\<bar> \<le> 1 / 2 ^ 48
   \<and> setDirection 0 0 new_Physics = Some new_Physics"
proof -
  have h: "1 / 2 ^ 500 \<le> max \<bar>3 :: real\<bar> \<bar>4\<bar> \<and> \<bar>3 :: real\<bar> \<le> 2 ^ 500 \<and> \<bar>4 :: real\<bar> \<le> 2 ^ 500"
    by simp
  have s: "sqrt (3\<^sup>2 + 4\<^sup>2) = 5"
    using real_sqrt_abs [of 5] by simp
  note e = setDirection_effect [of 3 4 new_Physics]
  from e h obtain m where m: "magnitude_of 3 4 = Fin m"
    and d: "setDirection 3 4 new_Physics = Some (new_Physics\<lparr>direction := (rnd (3 / m), rnd (4 / m))\<rparr>)"
    and a: "\<bar>rnd (3 / m) - 3 / sqrt (3\<^sup>2 + 4\<^sup>2)\<bar> \<le> 1 / 2 ^ 48"
    and b: "\<bar>rnd (4 / m) - 4 / sqrt (3\<^sup>2 + 4\<^sup>2)\<bar> \<le> 1 / 2 ^ 48"
    by blast
  from m have m5: "m = 5" by (simp add: magnitude_3_4)
  from e have z: "setDirection 0 0 new_Physics = Some new_Physics" by blast
  from h m d a b z show ?thesis
    unfolding m5 s by blast
qed

text \<open>
  Underflow: the square of \<open>2\<^sup>-\<^sup>6\<^sup>0\<^sup>0\<close> rounds to zero, so the computed magnitude of
  \<open>(0, 2\<^sup>-\<^sup>6\<^sup>0\<^sup>0)\<close> is zero and the direction is left as it was. Overflow: the square of
  \<open>2\<^sup>6\<^sup>0\<^sup>0\<close> is infinite, so the direction stored for \<open>(2\<^sup>6\<^sup>0\<^sup>0, 0)\<close> is \<open>(0, 0)\<close>.
\<close>

theorem setDirection_claim_counterexample:
  "((0 :: real), (1 / 2 ^ 600 :: real)) \<noteq> (0, 0)
   \<and> direction new_Physics = (1, 0)
   \<and> setDirection 0 (1 / 2 ^ 600) new_Physics = Some new_Physics
   \<and> setDirection (2 ^ 600) 0 new_Physics = Some (new_Physics\<lparr>direction := (0, 0)\<rparr>)"
proof -
  have z0: "round_num 0 = Fin 0"
    using round_num_int [of 0] by simp
  have z: "round_num (0 * 0) = Fin 0"
    using z0 by simp
  have "(1 / 2 ^ 600 :: real) * (1 / 2 ^ 600) = p2 (- 1200)"
    using p2_diff [of 0 1200] p2_nat [of 1200] by (simp add: p2_0)
  moreover have "\<bar>p2 (- 1200)\<bar> < p2 (- 1075)"
    using p2_pos [of "- 1200"] by (simp add: p2_less)
  ultimately have "rnd ((1 / 2 ^ 600) * (1 / 2 ^ 600)) = 0"
    by (simp only: rnd_small)
  then have u: "round_num ((1 / 2 ^ 600) * (1 / 2 ^ 600)) = Fin 0"
    by (simp add: round_num_def)
  have m0: "magnitude_of 0 (1 / 2 ^ 600) = Fin 0"
    unfolding magnitude_of_def by (simp only: z u) (simp add: z0 rnd_0)
  have "(2 ^ 600 :: real) * 2 ^ 600 = p2 1200"
    using p2_nat [of 1200] by simp
  moreover have "p2 1200 \<le> rnd (p2 1200)"
    by (rule rnd_ge_pow) simp_all
  moreover have "(2 :: real) ^ 1024 \<le> p2 1200"
    using p2_nat [of 1024] p2_le [of 1024 1200] by simp
  ultimately have "(2 :: real) ^ 1024 \<le> \<bar>rnd (2 ^ 600 * 2 ^ 600)\<bar>"
    by simp
  then have o: "round_num (2 ^ 600 * 2 ^ 600) = PInf"
    by (simp add: round_num_def)
  have mi: "magnitude_of (2 ^ 600) 0 = PInf"
    unfolding magnitude_of_def by (simp only: z o) (simp add: z0)
  have 1: "setDirection 0 (1 / 2 ^ 600) new_Physics = Some new_Physics"
    unfolding setDirection_def Let_def m0 by simp
  have 2: "setDirection (2 ^ 600) 0 new_Physics = Some (new_Physics\<lparr>direction := (0, 0)\<rparr>)"
    unfolding setDirection_def Let_def mi by simp
  have 3: "direction new_Physics = (1, 0)"
    by (simp add: new_Physics_def)
  have 4: "((0 :: real), (1 / 2 ^ 600 :: real)) \<noteq> (0, 0)"
    by simp
  from 4 3 1 2 show ?thesis by blast
qed

lemma magnitude_cases:
  "magnitude_of x y = PInf \<or>
   (\<exists>m. magnitude_of x y = Fin m \<and> 0 \<le> m \<and> (0 < m \<longrightarrow> p2 (- 537) \<le> m)
      \<and> (p2 486 \<le> \<bar>x\<bar> \<or> p2 486 \<le> \<bar>y\<bar> \<longrightarrow> p2 486 \<le> m))"
proof -
  define xx where "xx = rnd (x * x)"
  define yy where "yy = rnd (y * y)"
  define s where "s = rnd (xx + yy)"
  define m where "m = rnd (sqrt s)"
  consider "round_num (x * x) = PInf \<or> round_num (y * y) = PInf"
    | "round_num (x * x) = Fin xx" "0 \<le> xx" "round_num (y * y) = Fin yy" "0 \<le> yy"
    using round_num_nonneg [of "x * x"] round_num_nonneg [of "y * y"]
    by (auto simp add: xx_def yy_def)
  then show ?thesis
  proof cases
    case 1
    moreover have "round_num (x * x) \<noteq> NInf \<and> round_num (x * x) \<noteq> NaN
        \<and> round_num (y * y) \<noteq> NInf \<and> round_num (y * y) \<noteq> NaN"
      using round_num_nonneg [of "x * x"] round_num_nonneg [of "y * y"] by auto
    ultimately have "fadd (round_num (x * x)) (round_num (y * y)) = PInf"
      by (cases "round_num (x * x)"; cases "round_num (y * y)") simp_all
    then show ?thesis by (simp add: magnitude_of_def)
  next
    case 2
    have t0: "0 \<le> xx + yy" using 2 by simp
    from round_num_nonneg [OF t0] show ?thesis
    proof
      assume "round_num (xx + yy) = PInf"
      then show ?thesis by (simp add: magnitude_of_def 2)
    next
      assume a: "round_num (xx + yy) = Fin (rnd (xx + yy)) \<and> 0 \<le> rnd (xx + yy)"
      then have s0: "0 \<le> s" by (simp add: s_def)
      have mg: "magnitude_of x y = Fin m"
        using a s0 by (simp add: magnitude_of_def 2 s_def m_def)
      have m0: "0 \<le> m"
        unfolding m_def using s0 by (intro rnd_nonneg) simp
      have low: "p2 (- 537) \<le> m" if "0 < m"
      proof -
        have "s \<noteq> 0" using that by (auto simp add: m_def rnd_0)
        with s0 have "0 < rnd (xx + yy)" by (simp add: s_def)
        then have "p2 (2 * (- 537)) \<le> s"
          unfolding s_def using rnd_pos_ge [of "xx + yy"] by simp
        then have "sqrt (p2 (2 * (- 537))) \<le> sqrt s"
          by (rule real_sqrt_le_mono)
        then have "p2 (- 537) \<le> sqrt s"
          by (simp only: sqrt_p2)
        then show ?thesis
          unfolding m_def by (rule rnd_ge_pow) simp
      qed
      have big: "p2 486 \<le> m" if "p2 486 \<le> \<bar>x\<bar> \<or> p2 486 \<le> \<bar>y\<bar>"
      proof -
        have sq: "p2 (2 * 486) \<le> z * z" if "p2 486 \<le> \<bar>z\<bar>" for z :: real
        proof -
          have "p2 486 * p2 486 \<le> \<bar>z\<bar> * \<bar>z\<bar>"
            using that p2_pos [of 486] by (intro mult_mono) simp_all
          then show ?thesis using p2_add [of 486 486] by simp
        qed
        have "p2 (2 * 486) \<le> xx + yy"
        proof -
          from that consider "p2 486 \<le> \<bar>x\<bar>" | "p2 486 \<le> \<bar>y\<bar>" by blast
          then show ?thesis
          proof cases
            case 1
            then have "p2 (2 * 486) \<le> xx"
              unfolding xx_def by (intro rnd_ge_pow sq) simp_all
            with 2(4) show ?thesis by simp
          next
            case 2
            then have "p2 (2 * 486) \<le> yy"
              unfolding yy_def by (intro rnd_ge_pow sq) simp_all
            with \<open>0 \<le> xx\<close> show ?thesis by simp
          qed
        qed
        then have "p2 (2 * 486) \<le> s"
          unfolding s_def by (rule rnd_ge_pow) simp
        then have "sqrt (p2 (2 * 486)) \<le> sqrt s"
          by (rule real_sqrt_le_mono)
        then have "p2 486 \<le> sqrt s"
          by (simp only: sqrt_p2)
        then show ?thesis
          unfolding m_def by (rule rnd_ge_pow) simp
      qed
      from mg m0 low big show ?thesis by blast
    qed
  qed
qed

lemma quotient_finite:
  assumes x: "\<bar>x\<bar> < 2 ^ 1024" and m: "0 < m" and low: "p2 (- 537) \<le> m"
    and big: "p2 486 \<le> \<bar>x\<bar> \<longrightarrow> p2 486 \<le> m"
  shows "round_num (x / m) = Fin (rnd (x / m))"
proof -
  have "\<bar>x / m\<bar> \<le> p2 1023"
  proof (cases "p2 486 \<le> \<bar>x\<bar>")
    case True
    with big have "p2 486 \<le> m" by simp
    moreover have "\<bar>x\<bar> \<le> p2 1024" using x p2_nat [of 1024] by simp
    moreover have "p2 1024 = p2 538 * p2 486" using p2_add [of 538 486] by simp
    moreover have "p2 538 * p2 486 \<le> p2 538 * m"
      using \<open>p2 486 \<le> m\<close> p2_pos [of 538] by (intro mult_left_mono) simp_all
    ultimately have "\<bar>x\<bar> \<le> p2 538 * m"
      by linarith
    then have "\<bar>x / m\<bar> \<le> p2 538" using m by (simp add: field_simps)
    also have "\<dots> \<le> p2 1023" by (simp add: p2_le)
    finally show ?thesis .
  next
    case False
    then have "\<bar>x\<bar> \<le> p2 486" by simp
    moreover have "p2 486 = p2 1023 * p2 (- 537)" using p2_add [of 1023 "- 537"] by simp
    moreover have "p2 1023 * p2 (- 537) \<le> p2 1023 * m"
      using low p2_pos [of 1023] by (intro mult_left_mono) simp_all
    ultimately have "\<bar>x\<bar> \<le> p2 1023 * m" by simp
    then show ?thesis using m by (simp add: field_simps)
  qed
  then show ?thesis by (rule round_num_le) simp_all
qed

text \<open>\<open>setDirection\<close> always stores finite numbers: the result is never \<open>None\<close>.\<close>

lemma setDirection_total:
  assumes "\<bar>x\<bar> < 2 ^ 1024" and "\<bar>y\<bar> < 2 ^ 1024"
  shows "setDirection x y p \<noteq> None"
proof -
  from magnitude_cases [of x y] show ?thesis
  proof
    assume "magnitude_of x y = PInf"
    then show ?thesis by (simp add: setDirection_def)
  next
    assume "\<exists>m. magnitude_of x y = Fin m \<and> 0 \<le> m \<and> (0 < m \<longrightarrow> p2 (- 537) \<le> m)
      \<and> (p2 486 \<le> \<bar>x\<bar> \<or> p2 486 \<le> \<bar>y\<bar> \<longrightarrow> p2 486 \<le> m)"
    then obtain m where mg: "magnitude_of x y = Fin m"
      and low: "0 < m \<longrightarrow> p2 (- 537) \<le> m"
      and big: "p2 486 \<le> \<bar>x\<bar> \<or> p2 486 \<le> \<bar>y\<bar> \<longrightarrow> p2 486 \<le> m"
      by blast
    show ?thesis
    proof (cases "0 < m")
      case True
      have "round_num (x / m) = Fin (rnd (x / m))" "round_num (y / m) = Fin (rnd (y / m))"
        using assms True low big by (simp_all add: quotient_finite)
      with True show ?thesis by (simp add: setDirection_def mg)
    next
      case False
      then show ?thesis by (simp add: setDirection_def mg)
    qed
  qed
qed

section \<open>Theorems: CarPhysics\<close>

lemma cells:
  "worldToGrid 10 10 = (0, 0)" "worldToGrid 70 60 = (1, 1)" "worldToGrid (45 / 2) 60 = (0, 1)"
  by (simp_all add: worldToGrid_def TILE_WIDTH_def TILE_HEIGHT_def rnd_dyadic)

lemma tiles: "isObstacle 0 0" "isObstacle 0 1" "\<not> isObstacle 1 1"
  by (simp_all add: isObstacle_def getTrackTileAt_def COLS_def ROWS_def TRACK_GRID_def ROAD_def)

text \<open>No call of \<open>CarPhysics.update\<close> changes the position of the Transform.\<close>

lemma CarPhysics_update_position:
  "map_option position (snd (CarPhysics_update dt (p, tr))) = map_option position tr"
  by (cases tr)
     (auto simp add: CarPhysics_update_def checkTrackCollision_def recordPositions_def
        Physics_update_def setPosition_def Let_def split: option.splits)

lemmas car_defs = new_CarPhysics_def new_Transform_def recordPositions_def Physics_update_def
  distanceFromStart_def Let_def MAX_SPEED_def GROUND_SPEED_DECAY_def COLLISION_BOUNCE_def

lemma after_tick1_value:
  "after_tick1 =
     (car_fast\<lparr>speed := 190, startupTime := 3250, startPosition := Some (70, 60),
               previousPosition := Some (70, 60)\<rparr>,
      at_70_60\<lparr>velocity := (- 190, 0), position := (45 / 2, 60)\<rparr>)"
proof -
  have "CarPhysics_update (1 / 4) (car_fast, Some at_70_60) =
     (car_fast\<lparr>speed := 190, startupTime := 3250, startPosition := Some (70, 60),
               previousPosition := Some (70, 60)\<rparr>,
      Some (at_70_60\<lparr>velocity := (- 190, 0)\<rparr>))"
    by (simp add: CarPhysics_update_def checkTrackCollision_def car_fast_def at_70_60_def
        car_defs cells tiles)
  then show ?thesis
    by (simp add: after_tick1_def MovementSystem_update_def Transform_update_def
        at_70_60_def new_Transform_def)
qed

text \<open>
  C3. After the grace period and with the latch set, a car whose position lies in a cell
  that is not a road tile should be put back to the position of the previous tick, with its
  speed multiplied by the bounce coefficient. \<open>car_fast\<close> starts at (70, 60) on the road;
  one movement tick of a quarter second takes it to (22.5, 60), inside the wall cell
  (0, 1). In the next tick \<open>CarPhysics.update\<close> multiplies the speed by the bounce
  coefficient, but the previous position has by then been overwritten with (22.5, 60):
  the position is not put back to (70, 60), and the Transform update of that tick moves
  the car further into the wall.
\<close>

theorem collision_does_not_revert:
  "position at_70_60 = (70, 60)
   \<and> \<not> isObstacle (fst (worldToGrid 70 60)) (snd (worldToGrid 70 60))
   \<and> position (snd after_tick1) = (45 / 2, 60)
   \<and> isObstacle (fst (worldToGrid (45 / 2) 60)) (snd (worldToGrid (45 / 2) 60))
   \<and> startupGracePeriod (fst after_tick1) < startupTime (fst after_tick1)
   \<and> hasMovedFromStart (fst after_tick1)
   \<and> map_option position (snd (CarPhysics_update (1 / 4) (fst after_tick1, Some (snd after_tick1))))
       = Some (45 / 2, 60)
   \<and> previousPosition (fst (CarPhysics_update (1 / 4) (fst after_tick1, Some (snd after_tick1))))
       = Some (45 / 2, 60)
   \<and> speed (fst (CarPhysics_update (1 / 4) (fst after_tick1, Some (snd after_tick1))))
       = (361 / 2) * COLLISION_BOUNCE
   \<and> position (snd (MovementSystem_update (1 / 4) after_tick1)) = (- (181 / 8), 60)"
proof -
  have u: "CarPhysics_update (1 / 4) (fst after_tick1, Some (snd after_tick1)) =
     (car_fast\<lparr>speed := - (361 / 20), startupTime := 3500, startPosition := Some (70, 60),
               previousPosition := Some (45 / 2, 60)\<rparr>,
      Some (at_70_60\<lparr>velocity := (- (361 / 2), 0), position := (45 / 2, 60)\<rparr>))"
    by (simp add: after_tick1_value CarPhysics_update_def checkTrackCollision_def
        setPosition_def car_fast_def at_70_60_def car_defs cells tiles)
  have m: "position (snd (MovementSystem_update (1 / 4) after_tick1)) = (- (181 / 8), 60)"
    using u by (simp add: MovementSystem_update_def Transform_update_def at_70_60_def
        new_Transform_def)
  show ?thesis
    using m by (simp add: u) (simp add: after_tick1_value cells tiles car_fast_def
        at_70_60_def new_CarPhysics_def new_Transform_def COLLISION_BOUNCE_def)
qed

lemma recordPositions_physics:
  "Physics_update dt (recordPositions dt (p, tr)) = (pb, trb) \<Longrightarrow>
     speed pb = speed (fst (Physics_update dt (p, tr)))
     \<and> trb = snd (Physics_update dt (p, tr))
     \<and> startupTime pb = startupTime p + dt * 1000
     \<and> startupGracePeriod pb = startupGracePeriod p
     \<and> hasMovedFromStart pb =
         (case tr of None \<Rightarrow> hasMovedFromStart p
          | Some t \<Rightarrow> 20 < distanceFromStart p t \<or> hasMovedFromStart p)"
  by (cases tr) (auto simp add: Physics_update_def recordPositions_def Let_def split: if_splits)

text \<open>
  C4. The specification says: while the startup clock is below 2000 ms or the has-moved
  latch is not yet set, \<open>CarPhysics.update\<close> performs no collision reversion. What the code
  does: the gate reads the clock after this call has added \<open>deltaTime * 1000\<close> to it, and
  the latch after this call has updated it. When the clock so advanced does not exceed the
  grace threshold, or the latch is unset at the call and the Transform is at most 20 units
  from the start position, the speed and the Transform are exactly what the base
  \<open>Physics.update\<close> produces and the position is left as it was, whatever tile it lies in.
\<close>

theorem no_collision_before_gate:
  assumes "startupTime p + dt * 1000 \<le> startupGracePeriod p
           \<or> (\<not> hasMovedFromStart p \<and> (\<forall>t. tr = Some t \<longrightarrow> distanceFromStart p t \<le> 20))"
  shows "speed (fst (CarPhysics_update dt (p, tr))) = speed (fst (Physics_update dt (p, tr)))
       \<and> snd (CarPhysics_update dt (p, tr)) = snd (Physics_update dt (p, tr))
       \<and> map_option position (snd (CarPhysics_update dt (p, tr))) = map_option position tr"
proof -
  obtain pb trb where b: "Physics_update dt (recordPositions dt (p, tr)) = (pb, trb)"
    by (cases "Physics_update dt (recordPositions dt (p, tr))")
  note r = recordPositions_physics [OF b]
  from assms r have "\<not> (startupGracePeriod pb < startupTime pb \<and> hasMovedFromStart pb)"
    by (cases tr) auto
  then have "(if startupGracePeriod pb < startupTime pb \<and> hasMovedFromStart pb
      then checkTrackCollision (pb, trb) else (pb, trb)) = (pb, trb)"
    by (simp only: if_False)
  with b have "CarPhysics_update dt (p, tr) = (pb, trb)"
    by (simp add: CarPhysics_update_def Let_def)
  with r CarPhysics_update_position [of dt p tr] show ?thesis
    by simp
qed

theorem no_collision_before_gate_witness:
  "startupTime car_early + (1 / 4) * 1000 \<le> startupGracePeriod car_early
   \<and> \<not> hasMovedFromStart car_at_start \<and> distanceFromStart car_at_start in_wall \<le> 20
   \<and> isObstacle (fst (worldToGrid 10 10)) (snd (worldToGrid 10 10))
   \<and> speed (fst (CarPhysics_update (1 / 4) (car_early, Some in_wall))) = 95 / 2
   \<and> map_option position (snd (CarPhysics_update (1 / 4) (car_early, Some in_wall))) = Some (10, 10)
   \<and> speed (fst (CarPhysics_update (1 / 4) (car_at_start, Some in_wall))) = 95 / 2"
proof -
  have g: "startupTime car_early + (1 / 4) * 1000 \<le> startupGracePeriod car_early"
    by (simp add: car_early_def new_CarPhysics_def)
  then have h: "startupTime car_early + (1 / 4) * 1000 \<le> startupGracePeriod car_early
      \<or> (\<not> hasMovedFromStart car_early
          \<and> (\<forall>t. Some in_wall = Some t \<longrightarrow> distanceFromStart car_early t \<le> 20))"
    by blast
  have u: "\<not> hasMovedFromStart car_at_start" "distanceFromStart car_at_start in_wall \<le> 20"
    by (simp_all add: car_at_start_def new_CarPhysics_def distanceFromStart_def)
  then have h': "startupTime car_at_start + (1 / 4) * 1000 \<le> startupGracePeriod car_at_start
      \<or> (\<not> hasMovedFromStart car_at_start
          \<and> (\<forall>t. Some in_wall = Some t \<longrightarrow> distanceFromStart car_at_start t \<le> 20))"
    by simp
  have o: "isObstacle (fst (worldToGrid 10 10)) (snd (worldToGrid 10 10))"
    by (simp add: cells tiles)
  have s: "speed (fst (Physics_update (1 / 4) (car_early, Some in_wall))) = 95 / 2"
    "speed (fst (Physics_update (1 / 4) (car_at_start, Some in_wall))) = 95 / 2"
    by (simp_all add: car_early_def car_at_start_def car_defs)
  have p: "position in_wall = (10, 10)"
    by (simp add: in_wall_def new_Transform_def)
  note n = no_collision_before_gate [OF h] and n' = no_collision_before_gate [OF h']
  have 1: "speed (fst (CarPhysics_update (1 / 4) (car_early, Some in_wall))) = 95 / 2"
    using conjunct1 [OF n] s(1) by simp
  have 2: "map_option position (snd (CarPhysics_update (1 / 4) (car_early, Some in_wall)))
      = Some (10, 10)"
    using conjunct2 [OF conjunct2 [OF n]] p by simp
  have 3: "speed (fst (CarPhysics_update (1 / 4) (car_at_start, Some in_wall))) = 95 / 2"
    using conjunct1 [OF n'] s(2) by simp
  from g u o 1 2 3 show ?thesis by blast
qed

text \<open>
  A car whose clock reads 1990 ms when \<open>update(0.25)\<close> is called, and a car whose latch is
  unset at that moment but which is 190 units from its start position, both standing in
  a wall cell: each is bounced in that very call.
\<close>

theorem no_collision_before_gate_counterexample:
  "startupTime car_1990 < 2000
   \<and> \<not> hasMovedFromStart car_unlatched
   \<and> isObstacle (fst (worldToGrid 10 10)) (snd (worldToGrid 10 10))
   \<and> speed (fst (Physics_update (1 / 4) (car_1990, Some in_wall))) = 95 / 2
   \<and> speed (fst (CarPhysics_update (1 / 4) (car_1990, Some in_wall)))
       = (95 / 2) * COLLISION_BOUNCE
   \<and> speed (fst (Physics_update (1 / 4) (car_unlatched, Some in_wall))) = 95 / 2
   \<and> speed (fst (CarPhysics_update (1 / 4) (car_unlatched, Some in_wall)))
       = (95 / 2) * COLLISION_BOUNCE"
proof -
  have d: "sqrt 36100 = 190"
    using real_sqrt_abs [of 190] by simp
  have 1: "speed (fst (CarPhysics_update (1 / 4) (car_1990, Some in_wall))) = - (19 / 4)"
    by (simp add: CarPhysics_update_def checkTrackCollision_def setPosition_def
        car_1990_def in_wall_def car_defs cells tiles)
  have 2: "speed (fst (CarPhysics_update (1 / 4) (car_unlatched, Some in_wall))) = - (19 / 4)"
    by (simp add: CarPhysics_update_def checkTrackCollision_def setPosition_def
        car_unlatched_def in_wall_def car_defs cells tiles d)
  show ?thesis
    using 1 2
    by (simp add: cells tiles COLLISION_BOUNCE_def)
       (simp add: car_1990_def car_unlatched_def in_wall_def car_defs)
qed

section \<open>Theorems: track grid\<close>

lemma cell_roundtrip:
  fixes c :: int
  assumes "\<bar>c\<bar> \<le> 2 ^ 49"
  shows "fadd (round_num (of_int c * 40)) (round_num (40 / 2)) = Fin (of_int c * 40 + 20)"
    and "\<lfloor>rnd ((of_int c * 40 + 20) / 40)\<rfloor> = c"
proof -
  have m1: "\<bar>5 * c\<bar> < 2 ^ 53" and m2: "\<bar>10 * c + 5\<bar> < 2 ^ 53" and m3: "\<bar>2 * c + 1\<bar> < 2 ^ 53"
    using assms by simp_all
  have e1: "of_int (5 * c) * p2 3 = of_int c * (40::real)"
    using p2_nat [of 3] by simp
  have e2: "of_int (10 * c + 5) * p2 2 = of_int c * (40::real) + 20"
    using p2_nat [of 2] by simp
  have e3: "of_int (2 * c + 1) * p2 (- 1) = (of_int c * 40 + 20) / (40::real)"
    by (simp add: p2_def field_simps)
  have a: "round_num (of_int c * 40) = Fin (of_int c * 40)"
    using round_num_exact [OF m1, of 3] by (simp only: e1)
  have c: "round_num (of_int c * 40 + 20) = Fin (of_int c * 40 + 20)"
    using round_num_exact [OF m2, of 2] by (simp only: e2)
  show "fadd (round_num (of_int c * 40)) (round_num (40 / 2)) = Fin (of_int c * 40 + 20)"
    by (simp only: a round_num_20 fadd.simps c)
  have "rnd ((of_int c * 40 + 20) / 40) = (of_int c * 40 + 20) / 40"
    using rnd_exact [OF m3, of "- 1"] by (simp only: e3)
  also have "\<dots> = of_int c + 1 / 2"
    by (simp add: field_simps)
  finally show "\<lfloor>rnd ((of_int c * 40 + 20) / 40)\<rfloor> = c"
    by (simp add: floor_unique)
qed

lemma p2_5: "p2 5 = 32" and p2_m1: "p2 (- 1) = 1 / 2"
  by (simp_all add: p2_def)

lemma big_col:
  "round_num (3602879701896398 * 40) = Fin 144115188075855936"
  "round_num (144115188075855936 + 20) = Fin 144115188075855968"
  "\<lfloor>rnd (144115188075855968 / 40)\<rfloor> = 3602879701896399"
proof -
  have a: "rnd (3602879701896398 * 40) = 144115188075855936"
    using rnd_eval [of 57 "3602879701896398 * 40"] p2_nat [of 57] p2_nat [of 58]
    by (simp add: p2_5 rhe_def Let_def)
  have b: "rnd (144115188075855936 + 20) = 144115188075855968"
    using rnd_eval [of 57 "144115188075855936 + 20"] p2_nat [of 57] p2_nat [of 58]
    by (simp add: p2_5 rhe_def Let_def)
  have c: "rnd (144115188075855968 / 40) = 3602879701896399"
    using rnd_eval [of 51 "144115188075855968 / 40"] p2_nat [of 51] p2_nat [of 52]
    by (simp add: p2_m1 rhe_def Let_def)
  show "round_num (3602879701896398 * 40) = Fin 144115188075855936"
    using a by (simp add: round_num_def)
  show "round_num (144115188075855936 + 20) = Fin 144115188075855968"
    using b by (simp add: round_num_def)
  show "\<lfloor>rnd (144115188075855968 / 40)\<rfloor> = 3602879701896399"
    using c by simp
qed

text \<open>
  C10. For integers \<open>col\<close> and \<open>row\<close> of magnitude at most \<open>2\<^sup>4\<^sup>9\<close>, \<open>worldToGrid\<close> applied to
  the point returned by \<open>gridToWorld(col, row)\<close> is \<open>(col, row)\<close>.
\<close>

theorem grid_world_roundtrip:
  assumes "\<bar>col\<bar> \<le> 2 ^ 49" and "\<bar>row\<bar> \<le> 2 ^ 49"
  shows "gridRoundTrip col row = Some (col, row)"
  using cell_roundtrip [OF assms(1)] cell_roundtrip [OF assms(2)]
  by (simp add: gridRoundTrip_def gridToWorld_def worldToGrid_def TILE_WIDTH_def TILE_HEIGHT_def)

theorem grid_world_roundtrip_witness:
  "\<bar>2 :: int\<bar> \<le> 2 ^ 49 \<and> \<bar>1 :: int\<bar> \<le> 2 ^ 49
   \<and> gridToWorld 2 1 = (Fin 100, Fin 60)
   \<and> gridRoundTrip 2 1 = Some (2, 1)"
proof -
  have h: "\<bar>2 :: int\<bar> \<le> 2 ^ 49" "\<bar>1 :: int\<bar> \<le> 2 ^ 49" by simp_all
  have g: "gridToWorld 2 1 = (Fin 100, Fin 60)"
    using cell_roundtrip(1) [OF h(1)] cell_roundtrip(1) [OF h(2)]
    by (simp add: gridToWorld_def TILE_WIDTH_def TILE_HEIGHT_def)
  from grid_world_roundtrip [OF h] h g show ?thesis by blast
qed

text \<open>
  For \<open>col = 3602879701896398\<close> the sum \<open>col * 40 + 20\<close> is rounded to
  \<open>144115188075855968\<close>, and the round trip returns \<open>col + 1\<close>.
\<close>

theorem grid_world_roundtrip_counterexample:
  "gridToWorld 3602879701896398 0 = (Fin 144115188075855968, Fin 20)
   \<and> gridRoundTrip 3602879701896398 0 = Some (3602879701896399, 0)"
proof -
  have z: "\<bar>0 :: int\<bar> \<le> 2 ^ 49" by simp
  have g: "gridToWorld 3602879701896398 0 = (Fin 144115188075855968, Fin 20)"
    using big_col(1,2) cell_roundtrip(1) [OF z] round_num_20
    by (simp add: gridToWorld_def TILE_WIDTH_def TILE_HEIGHT_def)
  have w: "worldToGrid 144115188075855968 20 = (3602879701896399, 0)"
    using big_col(3) cell_roundtrip(2) [OF z]
    by (simp add: worldToGrid_def TILE_WIDTH_def TILE_HEIGHT_def)
  from g w show ?thesis
    by (simp add: gridRoundTrip_def)
qed

end
